theory Spec2Isabelle
  imports Complex_Main "HOL-Library.Log_Nat"
begin

section \<open>American roulette: betting and payout engine\<close>

text \<open>
  A shallow embedding of the betting core of the roulette game: the rule configuration
  (\<open>roulette-config.js\<close>), the payout calculator (\<open>payout-calculator.js\<close>), the
  bet manager (\<open>bet-manager.js\<close>) and the game state (\<open>game-state.js\<close>).

  JavaScript numbers are IEEE 754 doubles. A finite double is modelled by the rational
  number it denotes and \<open>NaN\<close> by a value of its own. Every arithmetic operation of the
  code is the exact operation followed by the rounding of its result to a double; the
  rounding is a parameter \<open>rnd\<close> of each function that computes, and \<open>fl\<close> below is the
  rounding of IEEE 754 (to nearest, ties to even, 53 significant bits). Comparisons are
  exact, and every comparison with \<open>NaN\<close> is false.

  The exponent range is taken as unbounded: the infinities, which arise only beyond
  \<open>1.8e308\<close>, the subnormal range below \<open>2.3e-308\<close> and the sign of zero are outside the
  model. The stake of a bet object and the amounts recorded in the history are finite
  numbers; the balance and the arguments of its mutators are any number, \<open>NaN\<close> included.
\<close>

subsection \<open>JavaScript values\<close>

datatype jsval = Num rat | NaN | Str string

text \<open>
  Rounding to the nearest double. A non-zero \<open>x\<close> with \<open>2^e \<le> |x| < 2^(e+1)\<close> lies between
  two neighbouring multiples of \<open>2^(e-52)\<close>, and is rounded to the nearer one, to the one
  with the even multiplier when it is half way. \<open>expo x\<close> is that \<open>e\<close>: for \<open>|x| = n/d\<close>
  with \<open>n\<close> of \<open>bitlen n\<close> bits and \<open>d\<close> of \<open>bitlen d\<close> bits it is
  \<open>bitlen n - bitlen d\<close> or one less.
\<close>

definition round_even :: "rat \<Rightarrow> int" where
  "round_even m =
     (let f = \<lfloor>m\<rfloor>; d = m - of_int f in
      if d < 1 / 2 then f else if d > 1 / 2 then f + 1 else if even f then f else f + 1)"

definition expo :: "rat \<Rightarrow> int" where
  "expo x =
     (case quotient_of \<bar>x\<bar> of
        (n, d) \<Rightarrow> let k = bitlen n - bitlen d in if 2 powi k \<le> \<bar>x\<bar> then k else k - 1)"

definition fl :: "rat \<Rightarrow> rat" where
  "fl x =
     (if x = 0 then 0
      else let e = expo x - 52 in of_int (round_even (x * 2 powi (- e))) * 2 powi e)"

text \<open>\<open>a * m\<close> and \<open>a + v\<close> for a finite number \<open>a\<close>, rounded; \<open>undefined\<close> (no value)
  and \<open>NaN\<close> both give \<open>NaN\<close>. Strings do not occur in these positions.\<close>

fun js_times :: "(rat \<Rightarrow> rat) \<Rightarrow> rat \<Rightarrow> jsval option \<Rightarrow> jsval" where
  "js_times rnd a (Some (Num m)) = Num (rnd (a * m))"
| "js_times rnd a _ = NaN"

fun js_plus :: "(rat \<Rightarrow> rat) \<Rightarrow> rat \<Rightarrow> jsval \<Rightarrow> jsval" where
  "js_plus rnd a (Num v) = Num (rnd (a + v))"
| "js_plus rnd a _ = NaN"

text \<open>
  A value of type number, for the balance: a finite double or \<open>NaN\<close>. Sum and difference
  are rounded and \<open>NaN\<close> when an operand is; \<open>Math.max(0, x)\<close> is \<open>NaN\<close> for \<open>NaN\<close>;
  \<open>x > y\<close> and \<open>x >= y\<close> are false when an operand is \<open>NaN\<close>.
\<close>

datatype jsnum = Finite rat | NotANumber

fun js_add :: "(rat \<Rightarrow> rat) \<Rightarrow> jsnum \<Rightarrow> jsnum \<Rightarrow> jsnum" where
  "js_add rnd (Finite a) (Finite b) = Finite (rnd (a + b))"
| "js_add rnd x y = NotANumber"

fun js_sub :: "(rat \<Rightarrow> rat) \<Rightarrow> jsnum \<Rightarrow> jsnum \<Rightarrow> jsnum" where
  "js_sub rnd (Finite a) (Finite b) = Finite (rnd (a - b))"
| "js_sub rnd x y = NotANumber"

fun js_max :: "rat \<Rightarrow> jsnum \<Rightarrow> jsnum" where
  "js_max z (Finite a) = Finite (max z a)"
| "js_max z NotANumber = NotANumber"

fun js_gt :: "jsnum \<Rightarrow> jsnum \<Rightarrow> bool" where
  "js_gt (Finite a) (Finite b) = (a > b)"
| "js_gt x y = False"

fun js_ge :: "jsnum \<Rightarrow> jsnum \<Rightarrow> bool" where
  "js_ge (Finite a) (Finite b) = (a \<ge> b)"
| "js_ge x y = False"

text \<open>The remainder operator \<open>%\<close> on finite numbers: the quotient is truncated towards zero.\<close>

definition js_rem :: "rat \<Rightarrow> rat \<Rightarrow> rat" where
  "js_rem a m = a - m * of_int (if a / m < 0 then \<lceil>a / m\<rceil> else \<lfloor>a / m\<rfloor>)"

subsection \<open>Rule configuration\<close>

record bet_type =
  name :: string
  payout :: rat
  numberCount :: nat
  description :: string

definition defaultBalance :: rat where "defaultBalance = 1000"
definition minBet :: rat where "minBet = 1"
definition maxBet :: rat where "maxBet = 1000"
definition tableMax :: rat where "tableMax = 10000"
definition maxEntries :: nat where "maxEntries = 50"

definition wheelOrder :: "jsval list" where
  "wheelOrder =
    [Num 0, Num 28, Num 9, Num 26, Num 30, Num 11, Num 7, Num 20, Num 32, Num 17,
     Num 5, Num 22, Num 34, Num 15, Num 3, Num 24, Num 36, Num 13, Num 1,
     Str ''00'', Num 27, Num 10, Num 25, Num 29, Num 12, Num 8, Num 19, Num 31,
     Num 18, Num 6, Num 21, Num 33, Num 16, Num 4, Num 23, Num 35, Num 14, Num 2]"

text \<open>The own properties of the object literal \<open>RouletteConfig.betTypes\<close>, in source order.\<close>

definition betTypes :: "(string \<times> bet_type) list" where
  "betTypes =
    [(''straight'', \<lparr>name = ''Straight Up'', payout = 35, numberCount = 1,
        description = ''Single number bet''\<rparr>),
     (''split'', \<lparr>name = ''Split'', payout = 17, numberCount = 2,
        description = ''Two adjacent numbers''\<rparr>),
     (''street'', \<lparr>name = ''Street'', payout = 11, numberCount = 3,
        description = ''Three numbers in a row''\<rparr>),
     (''corner'', \<lparr>name = ''Corner'', payout = 8, numberCount = 4,
        description = ''Four numbers in a square''\<rparr>),
     (''line'', \<lparr>name = ''Line'', payout = 5, numberCount = 6,
        description = ''Six numbers across two rows''\<rparr>),
     (''dozen'', \<lparr>name = ''Dozen'', payout = 2, numberCount = 12,
        description = ''1st 12, 2nd 12, or 3rd 12''\<rparr>),
     (''column'', \<lparr>name = ''Column'', payout = 2, numberCount = 12,
        description = ''One of three vertical columns''\<rparr>),
     (''red'', \<lparr>name = ''Red'', payout = 1, numberCount = 18,
        description = ''All red numbers''\<rparr>),
     (''black'', \<lparr>name = ''Black'', payout = 1, numberCount = 18,
        description = ''All black numbers''\<rparr>),
     (''even'', \<lparr>name = ''Even'', payout = 1, numberCount = 18,
        description = ''All even numbers''\<rparr>),
     (''odd'', \<lparr>name = ''Odd'', payout = 1, numberCount = 18,
        description = ''All odd numbers''\<rparr>),
     (''low'', \<lparr>name = ''Low (1-18)'', payout = 1, numberCount = 18,
        description = ''Numbers 1-18''\<rparr>),
     (''high'', \<lparr>name = ''High (19-36)'', payout = 1, numberCount = 18,
        description = ''Numbers 19-36''\<rparr>)]"

text \<open>
  \<open>RouletteConfig.betTypes[type]\<close> is a property read on an ordinary object. It finds the
  own properties above, and after them the properties every object literal inherits from
  \<open>Object.prototype\<close>: the standard ones of ECMAScript and its Annex B. An inherited
  member is a function (or, for \<open>__proto__\<close>, the prototype object): truthy, with no
  \<open>payout\<close> and no \<open>numberCount\<close> property. Any other key reads as \<open>undefined\<close>.
\<close>

definition objectPrototypeKeys :: "string list" where
  "objectPrototypeKeys =
    [''constructor'', ''hasOwnProperty'', ''isPrototypeOf'', ''propertyIsEnumerable'',
     ''toLocaleString'', ''toString'', ''valueOf'', ''__proto__'',
     ''__defineGetter__'', ''__defineSetter__'', ''__lookupGetter__'', ''__lookupSetter__'']"

datatype catalog_value = Entry bet_type | Inherited string

definition betTypes_get :: "string \<Rightarrow> catalog_value option" where
  "betTypes_get t =
     (case map_of betTypes t of
        Some e \<Rightarrow> Some (Entry e)
      | None \<Rightarrow> if t \<in> set objectPrototypeKeys then Some (Inherited t) else None)"

text \<open>\<open>betType.payout\<close> and \<open>betType.numberCount\<close> of a truthy lookup result;
  \<open>None\<close> is \<open>undefined\<close>.\<close>

fun payout_of :: "catalog_value \<Rightarrow> jsval option" where
  "payout_of (Entry e) = Some (Num (payout e))"
| "payout_of (Inherited k) = None"

fun numberCount_of :: "catalog_value \<Rightarrow> nat option" where
  "numberCount_of (Entry e) = Some (numberCount e)"
| "numberCount_of (Inherited k) = None"

subsection \<open>Bets\<close>

record bet =
  bet_id :: string
  btype :: string
  numbers :: "jsval list"
  amount :: rat
  position :: "(rat \<times> rat) option"
  timestamp :: nat

subsection \<open>Payout calculator\<close>

text \<open>The result object; its field \<open>payout\<close> is \<open>payoutAmount\<close> here, and
  \<open>payoutMultiplier\<close> is \<open>None\<close> where the object has no such property or it is
  \<open>undefined\<close>.\<close>

record bet_result =
  isWinner :: bool
  payoutAmount :: jsval
  winAmount :: jsval
  totalReturn :: jsval
  originalBet :: rat
  payoutMultiplier :: "jsval option"

definition calculateBetPayout :: "(rat \<Rightarrow> rat) \<Rightarrow> bet \<Rightarrow> jsval \<Rightarrow> bet_result" where
  "calculateBetPayout rnd b spinNumber =
     (let isWinner = (spinNumber \<in> set (numbers b)) in
      if \<not> isWinner then
        \<lparr>isWinner = False, payoutAmount = Num 0, winAmount = Num 0, totalReturn = Num 0,
         originalBet = amount b, payoutMultiplier = None\<rparr>
      else
        let betType = betTypes_get (btype b);
            payoutMultiplier = (case betType of Some v \<Rightarrow> payout_of v | None \<Rightarrow> Some (Num 0));
            payout = js_times rnd (amount b) payoutMultiplier;
            totalReturn = js_plus rnd (amount b) payout
        in \<lparr>isWinner = True, payoutAmount = payout, winAmount = payout,
            totalReturn = totalReturn, originalBet = amount b,
            payoutMultiplier = payoutMultiplier\<rparr>)"

definition getPayoutOdds :: "string \<Rightarrow> jsval option" where
  "getPayoutOdds t = (case betTypes_get t of Some v \<Rightarrow> payout_of v | None \<Rightarrow> Some (Num 0))"

subsection \<open>Game state: balance and history\<close>

record history_entry =
  h_timestamp :: nat
  spinNumber :: jsval
  spinColor :: "string option"
  bets :: "bet list option"
  totalBet :: rat
  totalWin :: rat
  netProfit :: rat

text \<open>
  The state holds the balance, the bets of the round and the history. The balance is a
  number; \<open>updateBalance\<close> stores \<open>Math.max(0, amount)\<close>, and the two relative mutators
  pass it the rounded sum and difference.
\<close>

record game_state =
  balance :: jsnum
  currentBets :: "bet list"
  history :: "history_entry list"

definition updateBalance :: "jsnum \<Rightarrow> game_state \<Rightarrow> game_state" where
  "updateBalance a st = st\<lparr>balance := js_max 0 a\<rparr>"

definition addToBalance :: "(rat \<Rightarrow> rat) \<Rightarrow> jsnum \<Rightarrow> game_state \<Rightarrow> game_state" where
  "addToBalance rnd a st = updateBalance (js_add rnd (balance st) a) st"

definition subtractFromBalance :: "(rat \<Rightarrow> rat) \<Rightarrow> jsnum \<Rightarrow> game_state \<Rightarrow> game_state" where
  "subtractFromBalance rnd a st = updateBalance (js_sub rnd (balance st) a) st"

definition resetBalance :: "game_state \<Rightarrow> game_state" where
  "resetBalance st = updateBalance (Finite defaultBalance) st"

datatype balance_op = SetBalance jsnum | Credit jsnum | Debit jsnum | Reset

fun apply_balance_op :: "(rat \<Rightarrow> rat) \<Rightarrow> game_state \<Rightarrow> balance_op \<Rightarrow> game_state" where
  "apply_balance_op rnd st (SetBalance a) = updateBalance a st"
| "apply_balance_op rnd st (Credit a) = addToBalance rnd a st"
| "apply_balance_op rnd st (Debit a) = subtractFromBalance rnd a st"
| "apply_balance_op rnd st Reset = resetBalance st"

text \<open>The states after each operation of a sequence, in order.\<close>

fun run_balance_ops :: "(rat \<Rightarrow> rat) \<Rightarrow> game_state \<Rightarrow> balance_op list \<Rightarrow> game_state list" where
  "run_balance_ops rnd st [] = []"
| "run_balance_ops rnd st (x # xs) =
     (let st' = apply_balance_op rnd st x in st' # run_balance_ops rnd st' xs)"

text \<open>\<open>unshift\<close> puts the entry in front; \<open>slice(0, maxEntries)\<close> keeps the first entries.\<close>

definition addToHistory :: "history_entry \<Rightarrow> game_state \<Rightarrow> game_state" where
  "addToHistory r st =
     (let h = r # history st in
      st\<lparr>history := (if length h > maxEntries then take maxEntries h else h)\<rparr>)"

fun run_appends :: "game_state \<Rightarrow> history_entry list \<Rightarrow> game_state list" where
  "run_appends st [] = []"
| "run_appends st (r # rs) = (let st' = addToHistory r st in st' # run_appends st' rs)"

subsection \<open>Bet manager: validation\<close>

datatype error =
    InvalidBetAmount
  | MinimumBet rat
  | MaximumBet rat
  | InsufficientAvailable jsnum
  | TableMaximum rat
  | InvalidBetType
  | InvalidNumbers
  | InvalidNumbersList "jsval list"
  | RequiresNumbers catalog_value
  | DuplicateNumbers
  | SplitOnly1To36
  | SplitNotAdjacent
  | CornerOnly1To36
  | CornerNotSquare
  | BetNotFound
  | NoBetsToRemove
  | NoPreviousBets
  | NoBetsInLastSpin
  | InsufficientToRepeat
  | NoBetsToDouble
  | InsufficientToDouble

text \<open>\<open>reduce((total, bet) => total + bet.amount, 0)\<close>: each partial sum is rounded.\<close>

definition sumAmounts :: "(rat \<Rightarrow> rat) \<Rightarrow> bet list \<Rightarrow> rat" where
  "sumAmounts rnd bs = foldl (\<lambda>total b. rnd (total + amount b)) 0 bs"

definition getTotalBetAmount :: "(rat \<Rightarrow> rat) \<Rightarrow> game_state \<Rightarrow> rat" where
  "getTotalBetAmount rnd st = sumAmounts rnd (currentBets st)"

text \<open>\<open>typeof amount !== 'number' || isNaN(amount)\<close> holds of a string and of \<open>NaN\<close>.
  A passing amount is returned as the number it is.\<close>

fun validateBetAmount :: "jsval \<Rightarrow> error + rat" where
  "validateBetAmount (Str s) = Inl InvalidBetAmount"
| "validateBetAmount NaN = Inl InvalidBetAmount"
| "validateBetAmount (Num a) =
     (if a < minBet then Inl (MinimumBet minBet)
      else if a > maxBet then Inl (MaximumBet maxBet)
      else Inr a)"

definition validateBalance :: "(rat \<Rightarrow> rat) \<Rightarrow> game_state \<Rightarrow> rat \<Rightarrow> error + unit" where
  "validateBalance rnd st a =
     (let currentBalance = balance st;
          totalCurrentBets = getTotalBetAmount rnd st;
          availableBalance = js_sub rnd currentBalance (Finite totalCurrentBets)
      in if js_gt (Finite a) availableBalance then Inl (InsufficientAvailable availableBalance)
         else Inr ())"

definition validateTableMax :: "(rat \<Rightarrow> rat) \<Rightarrow> game_state \<Rightarrow> rat \<Rightarrow> error + unit" where
  "validateTableMax rnd st a =
     (let totalCurrentBets = getTotalBetAmount rnd st;
          newTotal = rnd (totalCurrentBets + a)
      in if newTotal > tableMax then Inl (TableMaximum tableMax) else Inr ())"

text \<open>\<open>typeof n === 'number' && Number.isInteger(n) && n >= 1 && n <= 36\<close>\<close>

fun isInteger1To36 :: "jsval \<Rightarrow> bool" where
  "isInteger1To36 (Num q) = (of_int \<lfloor>q\<rfloor> = q \<and> q \<ge> 1 \<and> q \<le> 36)"
| "isInteger1To36 NaN = False"
| "isInteger1To36 (Str s) = False"

definition areAllIntegers1To36 :: "jsval list \<Rightarrow> bool" where
  "areAllIntegers1To36 nums = list_all isInteger1To36 nums"

text \<open>The finite numbers of a list, for the numeric sort that follows the check above.\<close>

fun finiteNumbers :: "jsval list \<Rightarrow> rat list" where
  "finiteNumbers [] = []"
| "finiteNumbers (Num q # vs) = q # finiteNumbers vs"
| "finiteNumbers (v # vs) = finiteNumbers vs"

text \<open>
  \<open>const [a, b] = [...nums].sort((x, y) => x - y)\<close>: with fewer than two elements
  \<open>b\<close> is \<open>undefined\<close>, and both comparisons are false.
\<close>

definition validateSplitNumbers :: "jsval list \<Rightarrow> error + unit" where
  "validateSplitNumbers nums =
     (if \<not> areAllIntegers1To36 nums then Inl SplitOnly1To36
      else case sort (finiteNumbers nums) of
        a # b # rest \<Rightarrow>
          (let isHorizontal = (b = a + 1 \<and> js_rem a 3 \<noteq> 0);
               isVertical = (b = a + 3)
           in if \<not> isHorizontal \<and> \<not> isVertical then Inl SplitNotAdjacent else Inr ())
      | _ \<Rightarrow> Inl SplitNotAdjacent)"

text \<open>
  \<open>expected.every((val, idx) => val === sorted[idx])\<close>: an index beyond the end of
  \<open>sorted\<close> reads \<open>undefined\<close>, which equals no number. On the empty list \<open>n\<close> is
  \<open>undefined\<close>, the first test passes and the comparison with \<open>expected\<close> fails.
\<close>

definition validateCornerNumbers :: "jsval list \<Rightarrow> error + unit" where
  "validateCornerNumbers nums =
     (if \<not> areAllIntegers1To36 nums then Inl CornerOnly1To36
      else let sorted = sort (finiteNumbers nums) in
        case sorted of
          [] \<Rightarrow> Inl CornerNotSquare
        | n # rest \<Rightarrow>
            if js_rem n 3 = 0 \<or> n > 32 then Inl CornerNotSquare
            else let expected = sort [n, n + 1, n + 3, n + 4];
                     matches = list_all (\<lambda>idx. idx < length sorted \<and> expected ! idx = sorted ! idx)
                                 [0 ..< length expected]
                 in if \<not> matches then Inl CornerNotSquare else Inr ())"

text \<open>\<open>[...new Set(numbers)]\<close> keeps one copy of each value; only its length is used.\<close>

definition validateBet :: "string \<Rightarrow> jsval list \<Rightarrow> error + unit" where
  "validateBet t nums =
     (case betTypes_get t of
        None \<Rightarrow> Inl InvalidBetType
      | Some betType \<Rightarrow>
          if nums = [] then Inl InvalidNumbers
          else let invalidNumbers = filter (\<lambda>num. num \<notin> set wheelOrder) nums in
            if length invalidNumbers > 0 then Inl (InvalidNumbersList invalidNumbers)
            else if Some (length nums) \<noteq> numberCount_of betType then Inl (RequiresNumbers betType)
            else if length (remdups nums) \<noteq> length nums then Inl DuplicateNumbers
            else case (if t = ''split'' then validateSplitNumbers nums else Inr ()) of
                Inl e \<Rightarrow> Inl e
              | Inr u \<Rightarrow>
                 (case (if t = ''corner'' then validateCornerNumbers nums else Inr ()) of
                    Inl e \<Rightarrow> Inl e
                  | Inr u \<Rightarrow> Inr ()))"

subsection \<open>Bet manager: placement\<close>

text \<open>
  \<open>generateId()\<close> and \<open>Date.now()\<close> come from the clock and the random generator: a
  pair of an identity and a timestamp, given by the environment for each placement.
\<close>

type_synonym stamp = "string \<times> nat"

definition createBet :: "stamp \<Rightarrow> string \<Rightarrow> jsval list \<Rightarrow> rat \<Rightarrow> (rat \<times> rat) option \<Rightarrow> bet" where
  "createBet s t nums a pos =
     \<lparr>bet_id = fst s, btype = t, numbers = nums, amount = a, position = pos, timestamp = snd s\<rparr>"

text \<open>\<open>GameState.placeBet\<close>: push.\<close>

definition pushBet :: "bet \<Rightarrow> game_state \<Rightarrow> game_state" where
  "pushBet b st = st\<lparr>currentBets := currentBets st @ [b]\<rparr>"



definition placeBet ::
  "(rat \<Rightarrow> rat) \<Rightarrow> stamp \<Rightarrow> string \<Rightarrow> jsval list \<Rightarrow> jsval \<Rightarrow> (rat \<times> rat) option
     \<Rightarrow> game_state \<Rightarrow> (error + bet) \<times> game_state" where
  "placeBet rnd s t nums amt pos st =
     (case validateBet t nums of
        Inl e \<Rightarrow> (Inl e, st)
      | Inr u \<Rightarrow>
         (case validateBetAmount amt of
            Inl e \<Rightarrow> (Inl e, st)
          | Inr a \<Rightarrow>
             (case validateBalance rnd st a of
                Inl e \<Rightarrow> (Inl e, st)
              | Inr u \<Rightarrow>
                 (case validateTableMax rnd st a of
                    Inl e \<Rightarrow> (Inl e, st)
                  | Inr u \<Rightarrow>
                     (let b = createBet s t nums a pos in (Inr b, pushBet b st))))))"

definition canAffordBet :: "(rat \<Rightarrow> rat) \<Rightarrow> game_state \<Rightarrow> rat \<Rightarrow> bool" where
  "canAffordBet rnd st a =
     (let currentBalance = balance st; totalCurrentBets = getTotalBetAmount rnd st
      in js_ge (js_sub rnd currentBalance (Finite totalCurrentBets)) (Finite a))"

text \<open>
  The loop of \<open>repeatLastBets\<close> and \<open>doubleAllBets\<close>: each bet goes through
  \<open>placeBet\<close>; a bet that is placed is pushed on \<open>placedBets\<close>, a rejected one is skipped.
  The \<open>i\<close>-th placement takes the \<open>i\<close>-th stamp of the environment.
\<close>

fun placeEach ::
  "(rat \<Rightarrow> rat) \<Rightarrow> (nat \<Rightarrow> stamp) \<Rightarrow> nat \<Rightarrow> bet list \<Rightarrow> bet list \<Rightarrow> game_state
     \<Rightarrow> bet list \<times> game_state" where
  "placeEach rnd env i [] placedBets st = (placedBets, st)"
| "placeEach rnd env i (b # bs) placedBets st =
     (case placeBet rnd (env i) (btype b) (numbers b) (Num (amount b)) (position b) st of
        (Inr placed, st') \<Rightarrow> placeEach rnd env (Suc i) bs (placedBets @ [placed]) st'
      | (Inl e, st') \<Rightarrow> placeEach rnd env (Suc i) bs placedBets st')"


definition doubleAllBets ::
  "(rat \<Rightarrow> rat) \<Rightarrow> (nat \<Rightarrow> stamp) \<Rightarrow> game_state \<Rightarrow> (error + bet list) \<times> game_state" where
  "doubleAllBets rnd env st =
     (let currentBets = currentBets st in
      if length currentBets = 0 then (Inl NoBetsToDouble, st)
      else let totalAmount = sumAmounts rnd currentBets in
        if \<not> canAffordBet rnd st totalAmount then (Inl InsufficientToDouble, st)
        else let (placedBets, st') = placeEach rnd env 0 currentBets [] st
             in (Inr placedBets, st'))"

subsection \<open>House edge\<close>

text \<open>
  \<open>rnd\<close> is the rounding of one arithmetic operation. A result that reads a property of
  an inherited member is \<open>NaN\<close>.
\<close>

definition calculateHouseEdge :: "(rat \<Rightarrow> rat) \<Rightarrow> string \<Rightarrow> jsval" where
  "calculateHouseEdge rnd t =
     (let totalNumbers = 38 in
      case betTypes_get t of
        None \<Rightarrow> Num 0
      | Some (Inherited k) \<Rightarrow> NaN
      | Some (Entry e) \<Rightarrow>
          let numbersCovered = of_nat (numberCount e);
              payout = payout e;
              trueOdds = rnd (rnd (totalNumbers - numbersCovered) / numbersCovered);
              houseEdge = rnd (rnd (rnd (trueOdds - payout) / rnd (trueOdds + 1)) * 100)
          in Num houseEdge)"

subsection \<open>Reading aids for the properties\<close>

text \<open>What identifies a bet for the player: its type, its slots and its stake.\<close>

definition betShape :: "bet \<Rightarrow> string \<times> jsval list \<times> rat" where
  "betShape b = (btype b, numbers b, amount b)"

text \<open>A bet that passes the two state-independent validations of \<open>placeBet\<close>.\<close>

definition placeable :: "bet \<Rightarrow> bool" where
  "placeable b =
     (validateBet (btype b) (numbers b) = Inr ()
      \<and> validateBetAmount (Num (amount b)) = Inr (amount b))"

text \<open>The bets of the most recent history entry: \<open>history[0].bets || []\<close>.\<close>

definition lastSpinBets :: "game_state \<Rightarrow> bet list" where
  "lastSpinBets st =
     (case history st of
        [] \<Rightarrow> []
      | lastSpin # older \<Rightarrow> (case bets lastSpin of Some bs \<Rightarrow> bs | None \<Rightarrow> []))"

text \<open>
  The copies that a run of placements keeps. The bets are taken in order against a balance
  and a running ledger total. A bet is kept when it is a valid placement and passes the two
  tests of \<open>placeBet\<close> on the state as the code computes them: its stake does not exceed
  the rounded difference of balance and total, and the rounded sum of total and stake does
  not exceed the table maximum; the total then becomes that rounded sum. Otherwise the bet
  is skipped and the total stays.
\<close>

fun acceptedCopies :: "(rat \<Rightarrow> rat) \<Rightarrow> jsnum \<Rightarrow> rat \<Rightarrow> bet list \<Rightarrow> bet list" where
  "acceptedCopies rnd bal tot [] = []"
| "acceptedCopies rnd bal tot (b # bs) =
     (if placeable b
         \<and> \<not> js_gt (Finite (amount b)) (js_sub rnd bal (Finite tot))
         \<and> \<not> rnd (tot + amount b) > tableMax
      then b # acceptedCopies rnd bal (rnd (tot + amount b)) bs
      else acceptedCopies rnd bal tot bs)"


section \<open>Properties\<close>

subsection \<open>Catalog lookups\<close>

lemma betTypes_get_None:
  "t \<notin> fst ` set betTypes \<Longrightarrow> t \<notin> set objectPrototypeKeys \<Longrightarrow> betTypes_get t = None"
  by (auto simp: betTypes_get_def map_of_eq_None_iff [symmetric] split: option.splits)

lemma map_of_straight:
  "map_of betTypes ''straight'' =
     Some \<lparr>name = ''Straight Up'', payout = 35, numberCount = 1,
            description = ''Single number bet''\<rparr>"
  by (simp add: betTypes_def)

lemma prototype_keys_not_own: "list_all (\<lambda>k. map_of betTypes k = None) objectPrototypeKeys"
  by (simp add: objectPrototypeKeys_def betTypes_def)

lemma betTypes_get_inherited:
  "t \<in> set objectPrototypeKeys \<Longrightarrow> betTypes_get t = Some (Inherited t)"
  using prototype_keys_not_own by (simp add: list_all_iff betTypes_get_def)

subsection \<open>Rounding to doubles\<close>

lemma round_even_of_int: "round_even (of_int j) = j"
  by (simp add: round_even_def)

lemma expo_of_int:
  assumes "k \<noteq> 0"
  shows "expo (of_int k) = bitlen \<bar>k\<bar> - 1"
proof -
  have q: "quotient_of \<bar>of_int k :: rat\<bar> = (\<bar>k\<bar>, 1)"
    using quotient_of_int [of "\<bar>k\<bar>"] by (simp add: Rat.of_int_def)
  have pos: "0 < \<bar>k\<bar>" using assms by simp
  have b1: "bitlen 1 = 1" by (simp add: bitlen_alt_def)
  have ge: "1 \<le> bitlen \<bar>k\<bar>" using pos by (auto simp: bitlen_alt_def)
  have "(2::int) ^ nat (bitlen \<bar>k\<bar> - 1) \<le> \<bar>k\<bar>" using bitlen_bounds [OF pos] by simp
  hence "(of_int ((2::int) ^ nat (bitlen \<bar>k\<bar> - 1)) :: rat) \<le> of_int \<bar>k\<bar>"
    by (simp only: of_int_le_iff)
  hence "(2::rat) powi (bitlen \<bar>k\<bar> - 1) \<le> \<bar>of_int k\<bar>"
    using ge by (simp add: power_int_def)
  thus ?thesis by (simp add: expo_def q b1 Let_def)
qed

text \<open>Every integer up to \<open>2^53\<close> in magnitude is a double: rounding leaves it as it is.\<close>

lemma fl_of_int:
  assumes "\<bar>k\<bar> \<le> 2 ^ 53"
  shows "fl (of_int k) = of_int k"
proof (cases "k = 0")
  case True thus ?thesis by (simp add: fl_def)
next
  case False
  define E where "E = bitlen \<bar>k\<bar> - 1"
  have pos: "0 < \<bar>k\<bar>" using False by simp
  have ge: "0 \<le> E" using pos by (auto simp: E_def bitlen_alt_def)
  have lo: "(2::int) ^ nat E \<le> \<bar>k\<bar>" using bitlen_bounds [OF pos] by (simp add: E_def)
  have ex: "expo (of_int k) = E" using expo_of_int [OF False] by (simp add: E_def)
  have "(2::int) ^ nat E \<le> 2 ^ 53" using lo assms by linarith
  hence "nat E \<le> 53" by (rule power_le_imp_le_exp [of "2::int", rotated]) simp
  hence E53: "E \<le> 53" by simp
  have int_m: "\<exists>j::int. (of_int k :: rat) * 2 powi (52 - E) = of_int j"
  proof (cases "E \<le> 52")
    case True
    hence "(of_int k :: rat) * 2 powi (52 - E) = of_int (k * 2 ^ nat (52 - E))"
      by (simp add: power_int_def)
    thus ?thesis by blast
  next
    case False
    hence e: "E = 53" using E53 by simp
    hence "\<bar>k\<bar> = 2 ^ 53" using lo assms by simp
    hence "k = 2 ^ 53 \<or> k = - (2 ^ 53)" by linarith
    hence "(of_int k :: rat) * 2 powi (52 - E) = of_int (2 ^ 52) \<or>
           (of_int k :: rat) * 2 powi (52 - E) = of_int (- (2 ^ 52))"
      using e by (auto simp: power_int_minus)
    thus ?thesis by blast
  qed
  then obtain j :: int where j: "(of_int k :: rat) * 2 powi (52 - E) = of_int j" by blast
  have "fl (of_int k) = of_int j * 2 powi (E - 52)"
    using False by (simp add: fl_def ex Let_def j round_even_of_int)
  also have "\<dots> = of_int k * (2 powi (52 - E) * 2 powi (E - 52))"
    by (simp add: j [symmetric] mult.assoc)
  also have "(2::rat) powi (52 - E) * 2 powi (E - 52) = 1"
    by (simp add: power_int_add [symmetric])
  finally show ?thesis by simp
qed

lemma fl_exact: "\<forall>k::int. \<bar>k\<bar> \<le> 2 ^ 53 \<longrightarrow> fl (of_int k) = of_int k"
  by (simp add: fl_of_int)

lemma fl_numeral: "numeral n \<le> (2 ^ 53 :: int) \<Longrightarrow> fl (numeral n) = numeral n"
  using fl_of_int [of "numeral n"] by simp

lemma fl_neg_numeral: "numeral n \<le> (2 ^ 53 :: int) \<Longrightarrow> fl (- numeral n) = - numeral n"
  using fl_of_int [of "- numeral n"] by simp

lemma fl_0 [simp]: "fl 0 = 0" by (simp add: fl_def)
lemma fl_1 [simp]: "fl 1 = 1" using fl_of_int [of 1] by simp

lemma round_even_error: "\<bar>of_int (round_even m) - m\<bar> \<le> 1 / 2"
proof -
  define f where "f = \<lfloor>m\<rfloor>"
  define d where "d = m - of_int f"
  define k where "k = round_even m"
  have a: "0 \<le> d" "d < 1" unfolding d_def f_def by linarith+
  have r: "k = (if d < 1 / 2 then f else if d > 1 / 2 then f + 1 else if even f then f else f + 1)"
    by (simp add: k_def round_even_def f_def d_def Let_def)
  have "\<bar>of_int k - (of_int f + d)\<bar> \<le> 1 / 2"
  proof (cases "d < 1 / 2")
    case True
    with a r show ?thesis by simp
  next
    case False
    show ?thesis
    proof (cases "d > 1 / 2")
      case True
      with a r False show ?thesis by simp
    next
      case F2: False
      with False have "d = 1 / 2" by simp
      with r show ?thesis by simp
    qed
  qed
  then show ?thesis by (simp add: k_def d_def)
qed

lemma bitlen_powi:
  assumes "0 < n"
  shows "(2::rat) powi (bitlen n - 1) \<le> of_int n" and "(of_int n :: rat) < 2 powi (bitlen n)"
proof -
  have ge: "1 \<le> bitlen n" using assms by (auto simp: bitlen_alt_def)
  from bitlen_bounds [OF assms]
  have b: "(2::int) ^ nat (bitlen n - 1) \<le> n" "n < 2 ^ nat (bitlen n)" by simp_all
  from b(1) have "(of_int ((2::int) ^ nat (bitlen n - 1)) :: rat) \<le> of_int n"
    by (simp only: of_int_le_iff)
  then show "(2::rat) powi (bitlen n - 1) \<le> of_int n" using ge by (simp add: power_int_def)
  from b(2) have "(of_int n :: rat) < of_int ((2::int) ^ nat (bitlen n))"
    by (simp only: of_int_less_iff)
  then show "(of_int n :: rat) < 2 powi (bitlen n)" using ge by (simp add: power_int_def)
qed

text \<open>\<open>expo x\<close> is the binary exponent of a non-zero \<open>x\<close>.\<close>

lemma expo_bounds:
  assumes "x \<noteq> 0"
  shows "2 powi (expo x) \<le> \<bar>x\<bar>" and "\<bar>x\<bar> < 2 powi (expo x + 1)"
proof -
  obtain n d where q: "quotient_of \<bar>x\<bar> = (n, d)" by (cases "quotient_of \<bar>x\<bar>")
  have d0: "0 < d" using quotient_of_denom_pos [OF q] .
  have xq: "\<bar>x\<bar> = of_int n / of_int d" using quotient_of_div [OF q] .
  have "0 < \<bar>x\<bar>" using assms by simp
  with xq d0 have "0 < (of_int n :: rat)" by (simp add: zero_less_divide_iff)
  then have n0: "0 < n" by simp
  define k where "k = bitlen n - bitlen d"
  let ?N = "of_int n :: rat" and ?D = "of_int d :: rat"
  have D0: "0 < ?D" using d0 by simp
  note bn = bitlen_powi [OF n0] and bd = bitlen_powi [OF d0]
  have "2 powi (k - 1) * ?D < 2 powi (k - 1) * 2 powi (bitlen d)"
    using bd(2) by (intro mult_strict_left_mono) simp_all
  also have "\<dots> = 2 powi (bitlen n - 1)"
    by (simp add: k_def power_int_add [symmetric])
  also have "\<dots> \<le> ?N" by (rule bn(1))
  finally have lower: "2 powi (k - 1) < \<bar>x\<bar>"
    unfolding xq using D0 by (simp add: pos_less_divide_eq)
  have "?N < 2 powi (bitlen n)" by (rule bn(2))
  also have "\<dots> = 2 powi (k + 1) * 2 powi (bitlen d - 1)"
    by (simp add: k_def power_int_add [symmetric])
  also have "\<dots> \<le> 2 powi (k + 1) * ?D"
    using bd(1) by (intro mult_left_mono) simp_all
  finally have upper: "\<bar>x\<bar> < 2 powi (k + 1)"
    unfolding xq using D0 by (simp add: pos_divide_less_eq)
  have e: "expo x = (if 2 powi k \<le> \<bar>x\<bar> then k else k - 1)"
    by (simp add: expo_def q k_def Let_def)
  show "2 powi (expo x) \<le> \<bar>x\<bar>" using lower by (simp add: e)
  show "\<bar>x\<bar> < 2 powi (expo x + 1)" using upper by (simp add: e)
qed

text \<open>\<open>fl\<close> rounds to nearest: the error is at most half a unit in the last place, which
  is at most \<open>2^-53\<close> of the magnitude.\<close>

lemma fl_error: "\<bar>fl x - x\<bar> \<le> \<bar>x\<bar> / 2 ^ 53"
proof (cases "x = 0")
  case True
  then show ?thesis by (simp add: fl_def)
next
  case False
  define e where "e = expo x - 52"
  define m where "m = x * 2 powi (- e)"
  have one: "(2::rat) powi (- e) * 2 powi e = 1" by (simp add: power_int_add [symmetric])
  have x: "x = m * 2 powi e" unfolding m_def using one by (simp add: mult.assoc)
  have f: "fl x = of_int (round_even m) * 2 powi e"
    using False by (simp add: fl_def e_def m_def Let_def)
  have "fl x - x = (of_int (round_even m) - m) * 2 powi e"
    unfolding f using x by (simp add: algebra_simps)
  then have "\<bar>fl x - x\<bar> = \<bar>of_int (round_even m) - m\<bar> * 2 powi e"
    by (simp add: abs_mult)
  also have "\<dots> \<le> 1 / 2 * 2 powi e"
    using round_even_error [of m] by (intro mult_right_mono) simp_all
  also have "\<dots> = 2 powi (expo x) / 2 ^ 53"
  proof -
    have "(2::rat) powi (e + 52) = 2 powi e * 2 powi 52"
      by (rule power_int_add) simp
    then have "(2::rat) powi (expo x) = 2 powi e * 2 ^ 52" by (simp add: e_def)
    then show ?thesis by simp
  qed
  also have "\<dots> \<le> \<bar>x\<bar> / 2 ^ 53"
    using expo_bounds(1) [OF False] by (intro divide_right_mono) simp_all
  finally show ?thesis .
qed

subsection \<open>Resolution of a single bet\<close>

lemma catalog_payouts_all:
  "list_all (\<lambda>(k, e). payout e \<in> \<int> \<and> 0 \<le> payout e \<and> payout e \<le> 35) betTypes"
  by (simp add: betTypes_def)

lemma catalog_payout:
  assumes "map_of betTypes t = Some e"
  shows "\<exists>p::int. payout e = of_int p \<and> 0 \<le> p \<and> p \<le> 35"
proof -
  from assms have "(t, e) \<in> set betTypes" by (rule map_of_SomeD)
  with catalog_payouts_all have e: "payout e \<in> \<int>" "0 \<le> payout e" "payout e \<le> 35"
    by (auto simp: list_all_iff)
  from e(1) obtain p :: int where p: "payout e = of_int p" by (rule Ints_cases)
  with e(2,3) have "0 \<le> p" "p \<le> 35" by simp_all
  with p show ?thesis by blast
qed

lemma whole_stake_exact:
  assumes ex: "\<forall>k::int. \<bar>k\<bar> \<le> 2 ^ 53 \<longrightarrow> rnd (of_int k) = of_int k"
    and n: "\<bar>n\<bar> \<le> 2 ^ 47" and p: "0 \<le> p" "p \<le> 35"
  shows "rnd (of_int n * of_int p) = of_int n * of_int p"
    and "rnd (of_int n + of_int n * of_int p) = of_int n + of_int n * of_int p"
proof -
  have "\<bar>n * p\<bar> = \<bar>n\<bar> * p" using p by (simp add: abs_mult)
  also have "\<dots> \<le> 2 ^ 47 * 35" using n p by (intro mult_mono) simp_all
  finally have b1: "\<bar>n * p\<bar> \<le> 2 ^ 53" by simp
  have "n + n * p = n * (1 + p)" by (simp add: algebra_simps)
  hence "\<bar>n + n * p\<bar> = \<bar>n\<bar> * (1 + p)" using p by (simp add: abs_mult)
  also have "\<dots> \<le> 2 ^ 47 * 36" using n p by (intro mult_mono) simp_all
  finally have b2: "\<bar>n + n * p\<bar> \<le> 2 ^ 53" by simp
  from ex b1 have "rnd (of_int (n * p)) = of_int (n * p)" by blast
  thus "rnd (of_int n * of_int p) = of_int n * of_int p" by simp
  from ex b2 have "rnd (of_int (n + n * p)) = of_int (n + n * p)" by blast
  thus "rnd (of_int n + of_int n * of_int p) = of_int n + of_int n * of_int p" by simp
qed

text \<open>
  C1, as stated, fails: the payout is a product of doubles, rounded to a double. The stake
  \<open>1.1\<close> is a number within the bet limits; on a winning split (multiplier 17) the payout
  is the double \<open>18.700000000000003\<close>, which is not the stake times 17, and the total
  return is \<open>19.800000000000004\<close>, which is not the stake plus that product.
\<close>

theorem calculateBetPayout_rounding_counterexample:
  "fl (11 / 10) = 2476979795053773 / 2251799813685248
   \<and> validateBetAmount (Num (2476979795053773 / 2251799813685248))
       = Inr (2476979795053773 / 2251799813685248)
   \<and> map_of betTypes ''split''
       = Some \<lparr>name = ''Split'', payout = 17, numberCount = 2,
               description = ''Two adjacent numbers''\<rparr>
   \<and> isWinner (calculateBetPayout fl
        \<lparr>bet_id = ''b1'', btype = ''split'', numbers = [Num 17, Num 18],
         amount = 2476979795053773 / 2251799813685248, position = None, timestamp = 0\<rparr> (Num 17))
   \<and> payoutAmount (calculateBetPayout fl
        \<lparr>bet_id = ''b1'', btype = ''split'', numbers = [Num 17, Num 18],
         amount = 2476979795053773 / 2251799813685248, position = None, timestamp = 0\<rparr> (Num 17))
       = Num (1315895516122317 / 70368744177664)
   \<and> payoutAmount (calculateBetPayout fl
        \<lparr>bet_id = ''b1'', btype = ''split'', numbers = [Num 17, Num 18],
         amount = 2476979795053773 / 2251799813685248, position = None, timestamp = 0\<rparr> (Num 17))
       \<noteq> Num (2476979795053773 / 2251799813685248 * 17)
   \<and> totalReturn (calculateBetPayout fl
        \<lparr>bet_id = ''b1'', btype = ''split'', numbers = [Num 17, Num 18],
         amount = 2476979795053773 / 2251799813685248, position = None, timestamp = 0\<rparr> (Num 17))
       = Num (2786602269435495 / 140737488355328)
   \<and> totalReturn (calculateBetPayout fl
        \<lparr>bet_id = ''b1'', btype = ''split'', numbers = [Num 17, Num 18],
         amount = 2476979795053773 / 2251799813685248, position = None, timestamp = 0\<rparr> (Num 17))
       \<noteq> Num (2476979795053773 / 2251799813685248 + 2476979795053773 / 2251799813685248 * 17)"
  by code_simp

text \<open>
  C1, amended. For every bet \<open>b\<close> and spin outcome \<open>w\<close>, \<open>calculateBetPayout\<close> reports a win
  exactly when \<open>w\<close> is one of the slots \<open>b\<close> covers. A winning bet whose type has the
  catalog entry \<open>e\<close> pays the product \<open>amount b * payout e\<close> rounded to a double, and
  returns the sum of the stake and that payout, rounded to a double; when the stake is a
  whole number (up to \<open>2^47\<close>, far beyond the bet limits) the payout is exactly
  \<open>amount b * payout e\<close> and the total return exactly the stake plus that payout. A losing
  bet has payout 0 and total return 0.
\<close>

theorem calculateBetPayout_resolution:
  "isWinner (calculateBetPayout rnd b w) = (w \<in> set (numbers b))
   \<and> (w \<in> set (numbers b) \<longrightarrow> (\<forall>e. map_of betTypes (btype b) = Some e \<longrightarrow>
         payoutAmount (calculateBetPayout rnd b w) = Num (rnd (amount b * payout e))
       \<and> totalReturn (calculateBetPayout rnd b w)
           = Num (rnd (amount b + rnd (amount b * payout e)))
       \<and> ((\<forall>k::int. \<bar>k\<bar> \<le> 2 ^ 53 \<longrightarrow> rnd (of_int k) = of_int k)
            \<and> (\<exists>n::int. amount b = of_int n \<and> \<bar>n\<bar> \<le> 2 ^ 47) \<longrightarrow>
          payoutAmount (calculateBetPayout rnd b w) = Num (amount b * payout e)
        \<and> totalReturn (calculateBetPayout rnd b w) = Num (amount b + amount b * payout e))))
   \<and> (w \<notin> set (numbers b) \<longrightarrow>
         payoutAmount (calculateBetPayout rnd b w) = Num 0
       \<and> totalReturn (calculateBetPayout rnd b w) = Num 0)"
proof -
  have win: "payoutAmount (calculateBetPayout rnd b w) = Num (rnd (amount b * payout e))
       \<and> totalReturn (calculateBetPayout rnd b w)
           = Num (rnd (amount b + rnd (amount b * payout e)))"
    if "w \<in> set (numbers b)" "map_of betTypes (btype b) = Some e" for e
    using that by (simp add: calculateBetPayout_def Let_def betTypes_get_def)
  have exact: "payoutAmount (calculateBetPayout rnd b w) = Num (amount b * payout e)
        \<and> totalReturn (calculateBetPayout rnd b w) = Num (amount b + amount b * payout e)"
    if w: "w \<in> set (numbers b)" and e: "map_of betTypes (btype b) = Some e"
      and ex: "\<forall>k::int. \<bar>k\<bar> \<le> 2 ^ 53 \<longrightarrow> rnd (of_int k) = of_int k"
      and st: "\<exists>n::int. amount b = of_int n \<and> \<bar>n\<bar> \<le> 2 ^ 47" for e
  proof -
    from st obtain n :: int where n: "amount b = of_int n" "\<bar>n\<bar> \<le> 2 ^ 47" by blast
    from catalog_payout [OF e] obtain p :: int where p: "payout e = of_int p" "0 \<le> p" "p \<le> 35"
      by blast
    from whole_stake_exact [OF ex n(2) p(2,3)] win [OF w e] show ?thesis
      by (simp add: n(1) p(1))
  qed
  have lose: "payoutAmount (calculateBetPayout rnd b w) = Num 0
       \<and> totalReturn (calculateBetPayout rnd b w) = Num 0" if "w \<notin> set (numbers b)"
    using that by (simp add: calculateBetPayout_def)
  have iw: "isWinner (calculateBetPayout rnd b w) = (w \<in> set (numbers b))"
    by (simp add: calculateBetPayout_def Let_def)
  from iw win exact lose show ?thesis by blast
qed

theorem calculateBetPayout_resolution_witness:
  "isWinner (calculateBetPayout fl
      \<lparr>bet_id = ''b1'', btype = ''straight'', numbers = [Num 17], amount = 10,
       position = None, timestamp = 0\<rparr> (Num 17))
   \<and> payoutAmount (calculateBetPayout fl
      \<lparr>bet_id = ''b1'', btype = ''straight'', numbers = [Num 17], amount = 10,
       position = None, timestamp = 0\<rparr> (Num 17)) = Num 350
   \<and> totalReturn (calculateBetPayout fl
      \<lparr>bet_id = ''b1'', btype = ''straight'', numbers = [Num 17], amount = 10,
       position = None, timestamp = 0\<rparr> (Num 17)) = Num 360
   \<and> totalReturn (calculateBetPayout fl
      \<lparr>bet_id = ''b1'', btype = ''straight'', numbers = [Num 17], amount = 10,
       position = None, timestamp = 0\<rparr> (Num 5)) = Num 0"
proof -
  let ?b = "\<lparr>bet_id = ''b1'', btype = ''straight'', numbers = [Num 17], amount = 10,
       position = None, timestamp = 0\<rparr>"
  have st: "\<exists>n::int. amount ?b = of_int n \<and> \<bar>n\<bar> \<le> 2 ^ 47"
    by (intro exI [of _ 10]) simp
  have w: "Num 17 \<in> set (numbers ?b)" by simp
  have e: "map_of betTypes (btype ?b) = Some \<lparr>name = ''Straight Up'', payout = 35,
      numberCount = 1, description = ''Single number bet''\<rparr>"
    by (simp add: map_of_straight)
  note t = calculateBetPayout_resolution [of fl ?b "Num 17"]
  from t have i: "isWinner (calculateBetPayout fl ?b (Num 17))" by simp
  from t [THEN conjunct2, THEN conjunct1, THEN mp, OF w, THEN spec, THEN mp, OF e,
      THEN conjunct2, THEN conjunct2, THEN mp, OF conjI, OF fl_exact st]
  have pr: "payoutAmount (calculateBetPayout fl ?b (Num 17)) = Num 350"
    "totalReturn (calculateBetPayout fl ?b (Num 17)) = Num 360"
    by simp_all
  from calculateBetPayout_resolution [of fl ?b "Num 5"]
  have l: "totalReturn (calculateBetPayout fl ?b (Num 5)) = Num 0" by simp
  from i pr l show ?thesis by simp
qed

lemma calculateBetPayout_unlisted_type:
  assumes "btype b \<notin> fst ` set betTypes" and "btype b \<notin> set objectPrototypeKeys"
    and "w \<in> set (numbers b)" and "rnd 0 = 0" and "rnd (amount b) = amount b"
  shows "isWinner (calculateBetPayout rnd b w) \<and> payoutAmount (calculateBetPayout rnd b w) = Num 0
       \<and> totalReturn (calculateBetPayout rnd b w) = Num (amount b)
       \<and> payoutMultiplier (calculateBetPayout rnd b w) = Some (Num 0)
       \<and> getPayoutOdds (btype b) = Some (Num 0)"
  using assms by (simp add: calculateBetPayout_def getPayoutOdds_def betTypes_get_None Let_def)

text \<open>
  Every name inherited from \<open>Object.prototype\<close> passes the test of the bet type and wins
  a payout and a total return of \<open>NaN\<close>.
\<close>

lemma calculateBetPayout_inherited:
  assumes "btype b \<in> set objectPrototypeKeys" and "w \<in> set (numbers b)"
  shows "payoutAmount (calculateBetPayout rnd b w) = NaN
       \<and> totalReturn (calculateBetPayout rnd b w) = NaN
       \<and> getPayoutOdds (btype b) = None"
  using assms
  by (simp add: calculateBetPayout_def getPayoutOdds_def betTypes_get_inherited Let_def)

text \<open>
  C10 at the bet type \<open>toString\<close>, which is not a key of the catalog: the property read
  \<open>betTypes['toString']\<close> finds the function inherited from \<open>Object.prototype\<close>. It is
  truthy and has no \<open>payout\<close>, so the multiplier is \<open>undefined\<close> and both the payout
  and the total return are \<open>NaN\<close>, where the claim has 0 and the stake. The type
  \<open>basket\<close>, which names no property at all, gets the zero multiplier: payout 0 and the
  stake of 10 as total return.
\<close>

theorem calculateBetPayout_inherited_type_NaN:
  "''toString'' \<notin> fst ` set betTypes
   \<and> Num 17 \<in> set (numbers
        \<lparr>bet_id = ''b1'', btype = ''toString'', numbers = [Num 17], amount = 10,
         position = None, timestamp = 0\<rparr>)
   \<and> payoutAmount (calculateBetPayout fl
        \<lparr>bet_id = ''b1'', btype = ''toString'', numbers = [Num 17], amount = 10,
         position = None, timestamp = 0\<rparr> (Num 17)) = NaN
   \<and> totalReturn (calculateBetPayout fl
        \<lparr>bet_id = ''b1'', btype = ''toString'', numbers = [Num 17], amount = 10,
         position = None, timestamp = 0\<rparr> (Num 17)) = NaN
   \<and> payoutMultiplier (calculateBetPayout fl
        \<lparr>bet_id = ''b1'', btype = ''toString'', numbers = [Num 17], amount = 10,
         position = None, timestamp = 0\<rparr> (Num 17)) = None
   \<and> getPayoutOdds ''toString'' = None
   \<and> payoutAmount (calculateBetPayout fl
        \<lparr>bet_id = ''b1'', btype = ''basket'', numbers = [Num 17], amount = 10,
         position = None, timestamp = 0\<rparr> (Num 17)) = Num 0
   \<and> totalReturn (calculateBetPayout fl
        \<lparr>bet_id = ''b1'', btype = ''basket'', numbers = [Num 17], amount = 10,
         position = None, timestamp = 0\<rparr> (Num 17)) = Num 10"
  by (simp add: calculateBetPayout_def getPayoutOdds_def betTypes_get_def betTypes_def
      objectPrototypeKeys_def fl_numeral Let_def)

subsection \<open>The balance\<close>

lemma updateBalance_number:
  "balance (updateBalance a st) = NotANumber
   \<or> (\<exists>b. balance (updateBalance a st) = Finite b \<and> 0 \<le> b)"
  by (cases a) (simp_all add: updateBalance_def)

lemma apply_balance_op_number:
  "balance (apply_balance_op rnd st x) = NotANumber
   \<or> (\<exists>b. balance (apply_balance_op rnd st x) = Finite b \<and> 0 \<le> b)"
  by (cases x)
    (simp_all add: addToBalance_def subtractFromBalance_def resetBalance_def updateBalance_number)

text \<open>
  After every operation of every sequence of balance mutations the balance is \<open>NaN\<close> or at
  least zero: it is never below zero.
\<close>

lemma run_balance_ops_number:
  "s \<in> set (run_balance_ops rnd st xs) \<Longrightarrow>
   balance s = NotANumber \<or> (\<exists>b. balance s = Finite b \<and> 0 \<le> b)"
proof (induction xs arbitrary: st)
  case Nil
  then show ?case by simp
next
  case (Cons x xs)
  then show ?case
    using apply_balance_op_number [of rnd st x] by (auto simp: Let_def)
qed

text \<open>
  When the balance and the amounts are finite numbers, every resulting balance is at least
  zero, and each mutator stores the rounded arithmetic result floored at zero.
\<close>

lemma balance_floor:
  "balance (updateBalance (Finite a) st) = Finite (if a < 0 then 0 else a)"
  "balance st = Finite c \<Longrightarrow>
     balance (addToBalance rnd (Finite a) st) = Finite (if rnd (c + a) < 0 then 0 else rnd (c + a))"
  "balance st = Finite c \<Longrightarrow>
     balance (subtractFromBalance rnd (Finite a) st)
       = Finite (if rnd (c - a) < 0 then 0 else rnd (c - a))"
  "balance (resetBalance st) = Finite 1000"
  by (simp_all add: updateBalance_def addToBalance_def subtractFromBalance_def resetBalance_def
      defaultBalance_def max_def)

lemma apply_balance_op_finite:
  assumes "\<exists>c. balance st = Finite c"
    and "x \<notin> {SetBalance NotANumber, Credit NotANumber, Debit NotANumber}"
  shows "\<exists>b. balance (apply_balance_op rnd st x) = Finite b \<and> 0 \<le> b"
proof -
  from assms(1) obtain c where c: "balance st = Finite c" ..
  show ?thesis
  proof (cases x)
    case (SetBalance a)
    with assms(2) obtain r where "a = Finite r" by (cases a) auto
    with SetBalance show ?thesis by (simp add: updateBalance_def)
  next
    case (Credit a)
    with assms(2) obtain r where "a = Finite r" by (cases a) auto
    with Credit c show ?thesis by (simp add: addToBalance_def updateBalance_def)
  next
    case (Debit a)
    with assms(2) obtain r where "a = Finite r" by (cases a) auto
    with Debit c show ?thesis by (simp add: subtractFromBalance_def updateBalance_def)
  next
    case Reset
    then show ?thesis by (simp add: resetBalance_def updateBalance_def defaultBalance_def)
  qed
qed

lemma run_balance_ops_finite:
  assumes "\<exists>c. balance st = Finite c"
    and "\<forall>x \<in> set xs. x \<notin> {SetBalance NotANumber, Credit NotANumber, Debit NotANumber}"
    and "s \<in> set (run_balance_ops rnd st xs)"
  shows "\<exists>b. balance s = Finite b \<and> 0 \<le> b"
  using assms
proof (induction xs arbitrary: st)
  case Nil
  then show ?case by simp
next
  case (Cons x xs)
  from Cons.prems(1,2) have f: "\<exists>b. balance (apply_balance_op rnd st x) = Finite b \<and> 0 \<le> b"
    by (intro apply_balance_op_finite) simp_all
  show ?case
  proof (cases "s = apply_balance_op rnd st x")
    case True
    with f show ?thesis by simp
  next
    case False
    with Cons.prems(3) have "s \<in> set (run_balance_ops rnd (apply_balance_op rnd st x) xs)"
      by (simp add: Let_def)
    moreover from f have "\<exists>c. balance (apply_balance_op rnd st x) = Finite c" by blast
    ultimately show ?thesis using Cons.prems(2) by (intro Cons.IH) simp_all
  qed
qed

text \<open>
  C8 at the amount \<open>NaN\<close>: \<open>Math.max(0, NaN)\<close> is \<open>NaN\<close>, so \<open>updateBalance(NaN)\<close> stores
  \<open>NaN\<close>, a balance that is not at least zero, and so does a credit of \<open>NaN\<close>; every
  later credit and debit keeps it. On finite amounts the same operations floor at zero.
\<close>

theorem updateBalance_NaN_stored:
  "balance (updateBalance NotANumber \<lparr>balance = Finite 1000, currentBets = [], history = []\<rparr>)
     = NotANumber
   \<and> \<not> js_ge (balance (updateBalance NotANumber
          \<lparr>balance = Finite 1000, currentBets = [], history = []\<rparr>)) (Finite 0)
   \<and> map balance (run_balance_ops fl \<lparr>balance = Finite 1000, currentBets = [], history = []\<rparr>
        [Credit NotANumber, Debit (Finite 250), Credit (Finite 40)])
     = [NotANumber, NotANumber, NotANumber]
   \<and> map balance (run_balance_ops fl \<lparr>balance = Finite 100, currentBets = [], history = []\<rparr>
        [Debit (Finite 250), Credit (Finite 40), SetBalance (Finite (- 5)), Reset, Debit (Finite 1)])
     = [Finite 0, Finite 40, Finite 0, Finite 1000, Finite 999]"
  by (simp add: Let_def updateBalance_def addToBalance_def subtractFromBalance_def
      resetBalance_def defaultBalance_def fl_numeral fl_neg_numeral)

subsection \<open>The round history\<close>

lemma history_addToHistory:
  "history (addToHistory r st) = r # take (maxEntries - 1) (history st)"
  by (auto simp: addToHistory_def Let_def maxEntries_def take_Cons')

lemma run_appends_bounded:
  "s \<in> set (run_appends st rs) \<Longrightarrow> length (history s) \<le> maxEntries"
  by (induction rs arbitrary: st) (auto simp: Let_def history_addToHistory maxEntries_def)

text \<open>
  C9. The history is bounded and newest first: an appended entry becomes the first
  element, followed by the 49 newest entries of the old history, so that the oldest
  entries are dropped when the bound of 50 would be exceeded; after every append of every
  sequence of appends the length is at most 50, and the last entry appended is in front.
\<close>

theorem history_bounded_newest_first:
  "maxEntries = 50
   \<and> history (addToHistory r st) = r # take 49 (history st)
   \<and> length (history (addToHistory r st)) = min 50 (Suc (length (history st)))
   \<and> (\<forall>s \<in> set (run_appends st rs). length (history s) \<le> 50)
   \<and> (rs \<noteq> [] \<longrightarrow> hd (history (last (run_appends st rs))) = last rs)"
proof -
  have a: "history (addToHistory r st) = r # take 49 (history st)"
    by (simp add: history_addToHistory maxEntries_def)
  have b: "\<forall>s \<in> set (run_appends st rs). length (history s) \<le> 50"
    using run_appends_bounded by (auto simp: maxEntries_def)
  have c: "rs \<noteq> [] \<Longrightarrow> hd (history (last (run_appends st rs))) = last rs"
  proof (induction rs arbitrary: st)
    case Nil
    then show ?case by simp
  next
    case (Cons x xs)
    show ?case
    proof (cases xs)
      case Nil
      then show ?thesis by (simp add: Let_def history_addToHistory)
    next
      case (Cons y ys)
      then have "run_appends (addToHistory x st) xs \<noteq> []" by (simp add: Let_def)
      with Cons.IH [of "addToHistory x st"] Cons show ?thesis by (simp add: Let_def)
    qed
  qed
  from a b c show ?thesis by (auto simp: maxEntries_def)
qed

theorem history_bounded_newest_first_witness:
  "history (addToHistory
      \<lparr>h_timestamp = 2, spinNumber = Num 17, spinColor = Some ''black'', bets = Some [],
       totalBet = 0, totalWin = 0, netProfit = 0\<rparr>
      \<lparr>balance = Finite 1000, currentBets = [],
       history = replicate 50
         \<lparr>h_timestamp = 1, spinNumber = Str ''00'', spinColor = Some ''green'',
          bets = Some [], totalBet = 0, totalWin = 0, netProfit = 0\<rparr>\<rparr>)
   = \<lparr>h_timestamp = 2, spinNumber = Num 17, spinColor = Some ''black'', bets = Some [],
       totalBet = 0, totalWin = 0, netProfit = 0\<rparr>
     # replicate 49
         \<lparr>h_timestamp = 1, spinNumber = Str ''00'', spinColor = Some ''green'',
          bets = Some [], totalBet = 0, totalWin = 0, netProfit = 0\<rparr>
   \<and> length (history (addToHistory
      \<lparr>h_timestamp = 2, spinNumber = Num 17, spinColor = Some ''black'', bets = Some [],
       totalBet = 0, totalWin = 0, netProfit = 0\<rparr>
      \<lparr>balance = Finite 1000, currentBets = [],
       history = replicate 50
         \<lparr>h_timestamp = 1, spinNumber = Str ''00'', spinColor = Some ''green'',
          bets = Some [], totalBet = 0, totalWin = 0, netProfit = 0\<rparr>\<rparr>)) = 50"
  using history_bounded_newest_first
      [of "\<lparr>h_timestamp = 2, spinNumber = Num 17, spinColor = Some ''black'', bets = Some [],
             totalBet = 0, totalWin = 0, netProfit = 0\<rparr>"
          "\<lparr>balance = Finite 1000, currentBets = [],
            history = replicate 50
              \<lparr>h_timestamp = 1, spinNumber = Str ''00'', spinColor = Some ''green'',
               bets = Some [], totalBet = 0, totalWin = 0, netProfit = 0\<rparr>\<rparr>"
          "[]"]
  by (simp add: maxEntries_def)

subsection \<open>Geometry of split and corner bets\<close>

lemma isInteger1To36_iff:
  "isInteger1To36 v \<longleftrightarrow> (\<exists>i::int. v = Num (of_int i) \<and> 1 \<le> i \<and> i \<le> 36)"
proof (cases v)
  case (Num q)
  show ?thesis
  proof
    assume "isInteger1To36 v"
    with Num have q: "of_int \<lfloor>q\<rfloor> = q" "1 \<le> q" "q \<le> 36" by simp_all
    then have "1 \<le> \<lfloor>q\<rfloor>" "\<lfloor>q\<rfloor> \<le> 36" by linarith+
    with q Num show "\<exists>i::int. v = Num (of_int i) \<and> 1 \<le> i \<and> i \<le> 36" by metis
  next
    assume "\<exists>i::int. v = Num (of_int i) \<and> 1 \<le> i \<and> i \<le> 36"
    then show "isInteger1To36 v" by auto
  qed
qed simp_all

lemma js_rem_of_int: "0 \<le> i \<Longrightarrow> js_rem (of_int i) 3 = of_int (i mod 3)"
proof -
  assume i: "0 \<le> i"
  have "\<lfloor>(of_int i :: rat) / 3\<rfloor> = i div 3"
    using floor_divide_of_int_eq [of i 3, where ?'a = rat] by simp
  moreover have "\<not> (of_int i :: rat) / 3 < 0" using i by simp
  ultimately have "js_rem (of_int i) 3 = of_int i - 3 * of_int (i div 3)"
    by (simp add: js_rem_def)
  also have "\<dots> = of_int (i - 3 * (i div 3))" by simp
  also have "i - 3 * (i div 3) = i mod 3" by (simp add: minus_mult_div_eq_mod)
  finally show ?thesis .
qed

lemma insort_of_int:
  "insort (of_int x :: rat) (map of_int xs) = map of_int (insort x xs)"
  by (induction xs) auto

lemma sort_of_int: "sort (map of_int xs :: rat list) = map of_int (sort xs)"
  by (induction xs) (simp_all add: insort_of_int)

lemma areAllIntegers1To36_iff:
  "areAllIntegers1To36 nums \<longleftrightarrow>
     (\<exists>ks. nums = map (\<lambda>i. Num (of_int i)) ks \<and> (\<forall>i \<in> set ks. 1 \<le> i \<and> i \<le> 36))"
proof (induction nums)
  case Nil
  then show ?case by (simp add: areAllIntegers1To36_def)
next
  case (Cons v vs)
  have step: "areAllIntegers1To36 (v # vs) \<longleftrightarrow> isInteger1To36 v \<and> areAllIntegers1To36 vs"
    by (simp add: areAllIntegers1To36_def)
  show ?case
  proof
    assume "areAllIntegers1To36 (v # vs)"
    with step Cons.IH isInteger1To36_iff [of v]
    obtain i ks where "v = Num (of_int i)" "1 \<le> i" "i \<le> 36"
      "vs = map (\<lambda>i. Num (of_int i)) ks" "\<forall>i \<in> set ks. 1 \<le> i \<and> i \<le> 36"
      by auto
    then show "\<exists>ks. v # vs = map (\<lambda>i. Num (of_int i)) ks \<and> (\<forall>i \<in> set ks. 1 \<le> i \<and> i \<le> 36)"
      by (auto intro!: exI [of _ "i # ks"])
  next
    assume "\<exists>ks. v # vs = map (\<lambda>i. Num (of_int i)) ks \<and> (\<forall>i \<in> set ks. 1 \<le> i \<and> i \<le> 36)"
    then show "areAllIntegers1To36 (v # vs)"
    proof (elim exE conjE)
      fix ks :: "int list"
      assume ks: "v # vs = map (\<lambda>i. Num (of_int i)) ks"
        "\<forall>i \<in> set ks. 1 \<le> i \<and> i \<le> 36"
      then obtain i js where ij: "ks = i # js" by (cases ks) auto
      with ks have "isInteger1To36 v" by (auto simp: isInteger1To36_iff)
      moreover from ks ij have "areAllIntegers1To36 vs"
        unfolding Cons.IH by (auto intro!: exI [of _ js])
      ultimately show "areAllIntegers1To36 (v # vs)" using step by simp
    qed
  qed
qed

lemma finiteNumbers_of_int: "finiteNumbers (map (\<lambda>i. Num (of_int i)) ks) = map of_int ks"
  by (induction ks) simp_all

lemma of_int_eq_plus1: "((of_int a :: rat) = of_int b + 1) = (a = b + 1)"
proof -
  have "(of_int b :: rat) + 1 = of_int (b + 1)" by simp
  then show ?thesis by (simp only: of_int_eq_iff)
qed

lemma of_int_eq_plus3: "((of_int a :: rat) = of_int b + 3) = (a = b + 3)"
proof -
  have "(of_int b :: rat) + 3 = of_int (b + 3)" by simp
  then show ?thesis by (simp only: of_int_eq_iff)
qed

lemma validateSplitNumbers_ints:
  assumes "1 \<le> i" "i \<le> 36" "1 \<le> j" "j \<le> 36"
  shows "validateSplitNumbers [Num (of_int i), Num (of_int j)] =
     (if (max i j = min i j + 1 \<and> min i j mod 3 \<noteq> 0) \<or> max i j = min i j + 3
      then Inr () else Inl SplitNotAdjacent)"
proof -
  define a where "a = min i j"
  define b where "b = max i j"
  have all: "areAllIntegers1To36 [Num (of_int i), Num (of_int j)]"
    using assms by (simp add: areAllIntegers1To36_def)
  have s: "sort (finiteNumbers [Num (of_int i), Num (of_int j)]) = [of_int a, of_int b]"
    by (simp add: min_def max_def a_def b_def)
  have "0 \<le> a" using assms by (simp add: a_def)
  then have r: "js_rem (of_int a) 3 = of_int (a mod 3)"
    by (rule js_rem_of_int)
  have z: "((of_int (a mod 3) :: rat) = 0) = (a mod 3 = 0)" by simp
  have "validateSplitNumbers [Num (of_int i), Num (of_int j)] =
     (if (b = a + 1 \<and> a mod 3 \<noteq> 0) \<or> b = a + 3 then Inr () else Inl SplitNotAdjacent)"
    unfolding validateSplitNumbers_def s list.case Let_def r z
      of_int_eq_plus1 of_int_eq_plus3
    using all by simp
  then show ?thesis unfolding a_def b_def .
qed

lemma validateSplitNumbers_pair:
  "validateSplitNumbers [x, y] = Inr () \<longleftrightarrow>
     (\<exists>i j::int. x = Num (of_int i) \<and> y = Num (of_int j)
        \<and> 1 \<le> i \<and> i \<le> 36 \<and> 1 \<le> j \<and> j \<le> 36
        \<and> ((max i j = min i j + 1 \<and> min i j mod 3 \<noteq> 0) \<or> max i j = min i j + 3))"
  (is "?L \<longleftrightarrow> ?R")
proof
  assume L: ?L
  have "isInteger1To36 x \<and> isInteger1To36 y"
  proof (rule ccontr)
    assume "\<not> (isInteger1To36 x \<and> isInteger1To36 y)"
    then have "validateSplitNumbers [x, y] = Inl SplitOnly1To36"
      by (auto simp: validateSplitNumbers_def areAllIntegers1To36_def)
    with L show False by simp
  qed
  then obtain i j where ij: "x = Num (of_int i)" "1 \<le> i" "i \<le> 36"
      "y = Num (of_int j)" "1 \<le> j" "j \<le> 36"
    unfolding isInteger1To36_iff by auto
  have "(max i j = min i j + 1 \<and> min i j mod 3 \<noteq> 0) \<or> max i j = min i j + 3"
  proof (rule ccontr)
    assume "\<not> ?thesis"
    then have "validateSplitNumbers [x, y] = Inl SplitNotAdjacent"
      unfolding ij(1,4) validateSplitNumbers_ints [OF ij(2,3,5,6)] by simp
    with L show False by simp
  qed
  with ij show ?R by blast
next
  assume ?R
  then obtain i j where ij: "x = Num (of_int i)" "y = Num (of_int j)"
      "1 \<le> i" "i \<le> 36" "1 \<le> j" "j \<le> 36"
      "(max i j = min i j + 1 \<and> min i j mod 3 \<noteq> 0) \<or> max i j = min i j + 3"
    by blast
  show ?L unfolding ij(1,2) validateSplitNumbers_ints [OF ij(3-6)] using ij(7) by simp
qed

lemma hd_sort_Min:
  fixes xs :: "'a::linorder list"
  assumes "xs \<noteq> []"
  shows "hd (sort xs) = Min (set xs)"
proof -
  from assms have "sort xs \<noteq> []" by (metis length_0_conv length_sort)
  then obtain y ys where s: "sort xs = y # ys" by (cases "sort xs") auto
  have "sorted (y # ys)" using sorted_sort_key [of "\<lambda>x. x" xs] s by simp
  then have le: "\<forall>z \<in> set (y # ys). y \<le> z" by auto
  have st: "set (y # ys) = set xs" using set_sort [of "\<lambda>x. x" xs] s by simp
  have "Min (set xs) = y"
  proof (rule Min_eqI)
    show "finite (set xs)" by simp
    show "\<And>z. z \<in> set xs \<Longrightarrow> y \<le> z" using le st by blast
    show "y \<in> set xs" using st by auto
  qed
  with s show ?thesis by simp
qed

lemma sort4:
  fixes ks :: "int list"
  assumes "length ks = 4"
  shows "(sort ks = [m, m + 1, m + 3, m + 4]) = (set ks = {m, m + 1, m + 3, m + 4})"
proof
  assume "sort ks = [m, m + 1, m + 3, m + 4]"
  then have "set (sort ks) = {m, m + 1, m + 3, m + 4}" by simp
  then show "set ks = {m, m + 1, m + 3, m + 4}" by simp
next
  assume s: "set ks = {m, m + 1, m + 3, m + 4}"
  have "card {m, m + 1, m + 3, m + 4} = 4" by simp
  with s assms have "card (set ks) = length ks" by simp
  then have d: "distinct ks" by (simp add: card_distinct)
  have "sort ks = [m, m + 1, m + 3, m + 4]"
  proof (rule sorted_distinct_set_unique)
    show "sorted (sort ks)" by simp
    show "distinct (sort ks)" using d by simp
    show "sorted [m, m + 1, m + 3, m + 4]" by simp
    show "distinct [m, m + 1, m + 3, m + 4]" by simp
    show "set (sort ks) = set [m, m + 1, m + 3, m + 4]" using s by simp
  qed
  then show "sort ks = [m, m + 1, m + 3, m + 4]" .
qed

lemma matches4:
  assumes "length xs = 4"
  shows "list_all (\<lambda>idx. idx < length xs \<and> [a, b, c, d] ! idx = xs ! idx) [0 ..< length [a, b, c, d]]
     = ([a, b, c, d] = xs)"
proof -
  from assms obtain x0 x1 x2 x3 where xs: "xs = [x0, x1, x2, x3]"
    by (auto simp: length_Suc_conv numeral_eq_Suc)
  have u: "[0 ..< length [a, b, c, d]] = [0, 1, 2, 3]"
    by (simp add: upt_rec numeral_eq_Suc)
  show ?thesis unfolding u xs by (auto simp: numeral_eq_Suc)
qed

lemma validateCornerNumbers_ints:
  assumes len: "length ks = 4" and rng: "\<forall>i \<in> set ks. 1 \<le> i \<and> i \<le> 36"
  shows "validateCornerNumbers (map (\<lambda>i. Num (of_int i)) ks) =
     (if Min (set ks) mod 3 \<noteq> 0 \<and> Min (set ks) \<le> 32
         \<and> set ks = {Min (set ks), Min (set ks) + 1, Min (set ks) + 3, Min (set ks) + 4}
      then Inr () else Inl CornerNotSquare)"
proof -
  define n where "n = Min (set ks)"
  from len have ne: "ks \<noteq> []" by auto
  then have hd: "hd (sort ks) = n" unfolding n_def by (rule hd_sort_Min)
  from ne have "sort ks \<noteq> []" by (metis length_0_conv length_sort)
  with hd obtain rest where s: "sort ks = n # rest" by (cases "sort ks") auto
  have "n \<in> set ks" unfolding n_def using ne by (intro Min_in) simp_all
  with rng have n1: "1 \<le> n" by blast
  have all: "areAllIntegers1To36 (map (\<lambda>i. Num (of_int i)) ks)"
    unfolding areAllIntegers1To36_iff using rng by blast
  have srt: "sort (finiteNumbers (map (\<lambda>i. Num (of_int i)) ks)) = of_int n # map of_int rest"
    by (simp add: finiteNumbers_of_int sort_of_int s)
  have r: "js_rem (of_int n) 3 = of_int (n mod 3)"
    using n1 by (intro js_rem_of_int) simp
  have ex: "sort [of_int n, of_int n + 1, of_int n + 3, of_int n + 4 :: rat]
      = map of_int [n, n + 1, n + 3, n + 4]"
    by simp
  have l4: "length (of_int n # map of_int rest :: rat list) = 4"
    using len s by (metis length_Cons length_map length_sort)
  have eq: "([of_int n, of_int n + 1, of_int n + 3, of_int n + 4] = (of_int n # map of_int rest :: rat list))
        = (sort ks = [n, n + 1, n + 3, n + 4])"
  proof -
    have a: "[of_int n, of_int n + 1, of_int n + 3, of_int n + 4 :: rat]
        = map of_int [n, n + 1, n + 3, n + 4]"
      by simp
    have b: "(of_int n # map of_int rest :: rat list) = map of_int (sort ks)"
      by (simp add: s)
    have "(map of_int [n, n + 1, n + 3, n + 4] = (map of_int (sort ks) :: rat list))
        = ([n, n + 1, n + 3, n + 4] = sort ks)"
      by (rule inj_map_eq_map) (simp add: inj_def)
    then show ?thesis unfolding a b by auto
  qed
  have m: "list_all (\<lambda>idx. idx < length (of_int n # map of_int rest :: rat list)
               \<and> [of_int n, of_int n + 1, of_int n + 3, of_int n + 4 :: rat] ! idx
                   = (of_int n # map of_int rest) ! idx)
             [0 ..< length [of_int n, of_int n + 1, of_int n + 3, of_int n + 4 :: rat]]
        = (sort ks = [n, n + 1, n + 3, n + 4])"
    using matches4 [OF l4, of "of_int n" "of_int n + 1" "of_int n + 3" "of_int n + 4"] eq
    by (simp only:)
  have g: "(of_int n > (32::rat)) = (n > 32)" by simp
  have z: "((of_int (n mod 3) :: rat) = 0) = (n mod 3 = 0)" by simp
  have "validateCornerNumbers (map (\<lambda>i. Num (of_int i)) ks) =
     (if n mod 3 \<noteq> 0 \<and> n \<le> 32 \<and> sort ks = [n, n + 1, n + 3, n + 4]
      then Inr () else Inl CornerNotSquare)"
    unfolding validateCornerNumbers_def Let_def srt list.case ex [simplified] r z g
    using all m by (simp add: not_less)
  then show ?thesis unfolding sort4 [OF len] n_def .
qed

lemma js_rem_1: "js_rem 1 3 = 1" using js_rem_of_int [of 1] by simp
lemma js_rem_3: "js_rem 3 3 = 0" using js_rem_of_int [of 3] by simp
lemma js_rem_12: "js_rem 12 3 = 0" using js_rem_of_int [of 12] by simp
lemma js_rem_32: "js_rem 32 3 = 2" using js_rem_of_int [of 32] by simp

lemma upt4: "[0 ..< 4] = [0, 1, 2, 3]"
  by (simp add: upt_rec numeral_eq_Suc)

text \<open>
  C5. A pair of numbers proposed as a split bet is accepted exactly when both are integers
  from 1 to 36 and, with \<open>a\<close> the smaller and \<open>b\<close> the larger, either \<open>b = a + 1\<close> and
  \<open>a mod 3 \<noteq> 0\<close>, or \<open>b = a + 3\<close>. A split that involves zero or double zero is
  rejected. The pairs (14, 17) and (17, 18) are accepted and (18, 19) is rejected.
\<close>

theorem validateSplitNumbers_geometry:
  "(validateSplitNumbers [x, y] = Inr ()) =
     (\<exists>i j::int. x = Num (of_int i) \<and> y = Num (of_int j)
        \<and> 1 \<le> i \<and> i \<le> 36 \<and> 1 \<le> j \<and> j \<le> 36
        \<and> ((max i j = min i j + 1 \<and> min i j mod 3 \<noteq> 0) \<or> max i j = min i j + 3))
   \<and> (x \<in> {Num 0, Str ''00''} \<or> y \<in> {Num 0, Str ''00''}
        \<longrightarrow> validateSplitNumbers [x, y] = Inl SplitOnly1To36)
   \<and> validateSplitNumbers [Num 14, Num 17] = Inr ()
   \<and> validateSplitNumbers [Num 17, Num 18] = Inr ()
   \<and> validateSplitNumbers [Num 18, Num 19] = Inl SplitNotAdjacent"
proof -
  have zero: "x \<in> {Num 0, Str ''00''} \<or> y \<in> {Num 0, Str ''00''}
        \<Longrightarrow> validateSplitNumbers [x, y] = Inl SplitOnly1To36"
    by (auto simp: validateSplitNumbers_def areAllIntegers1To36_def)
  have a: "validateSplitNumbers [Num 14, Num 17] = Inr ()"
    using validateSplitNumbers_ints [of 14 17] by simp
  have b: "validateSplitNumbers [Num 17, Num 18] = Inr ()"
    using validateSplitNumbers_ints [of 17 18] by simp
  have c: "validateSplitNumbers [Num 18, Num 19] = Inl SplitNotAdjacent"
    using validateSplitNumbers_ints [of 18 19] by simp
  from validateSplitNumbers_pair [of x y] zero a b c show ?thesis by blast
qed

theorem validateSplitNumbers_geometry_witness:
  "validateSplitNumbers [Num 8, Num 5] = Inr ()
   \<and> validateSplitNumbers [Num 0, Num 1] = Inl SplitOnly1To36
   \<and> validateSplitNumbers [Num 12, Num 13] = Inl SplitNotAdjacent"
proof -
  have "\<exists>i j::int. Num 8 = Num (of_int i) \<and> Num 5 = Num (of_int j)
        \<and> 1 \<le> i \<and> i \<le> 36 \<and> 1 \<le> j \<and> j \<le> 36
        \<and> ((max i j = min i j + 1 \<and> min i j mod 3 \<noteq> 0) \<or> max i j = min i j + 3)"
    by (intro exI [of _ 8] exI [of _ 5]) simp
  then have "validateSplitNumbers [Num 8, Num 5] = Inr ()"
    using validateSplitNumbers_geometry [of "Num 8" "Num 5"] by blast
  moreover have "validateSplitNumbers [Num 0, Num 1] = Inl SplitOnly1To36"
    using validateSplitNumbers_geometry [of "Num 0" "Num 1"] by simp
  moreover have "validateSplitNumbers [Num 12, Num 13] = Inl SplitNotAdjacent"
    by (simp add: validateSplitNumbers_def areAllIntegers1To36_def js_rem_12)
  ultimately show ?thesis by simp
qed

lemma validateCornerNumbers_four:
  assumes "length nums = 4"
  shows "(validateCornerNumbers nums = Inr ()) =
     (\<exists>ks. nums = map (\<lambda>i. Num (of_int i)) ks \<and> (\<forall>i \<in> set ks. 1 \<le> i \<and> i \<le> 36)
        \<and> Min (set ks) mod 3 \<noteq> 0 \<and> Min (set ks) \<le> 32
        \<and> set ks = {Min (set ks), Min (set ks) + 1, Min (set ks) + 3, Min (set ks) + 4})"
  (is "?L = ?R")
proof (cases "areAllIntegers1To36 nums")
  case False
  then have "validateCornerNumbers nums = Inl CornerOnly1To36"
    by (simp add: validateCornerNumbers_def)
  moreover from False have "\<not> ?R" unfolding areAllIntegers1To36_iff by auto
  ultimately show ?thesis by simp
next
  case True
  then obtain ks where ks: "nums = map (\<lambda>i. Num (of_int i)) ks"
      "\<forall>i \<in> set ks. 1 \<le> i \<and> i \<le> 36"
    unfolding areAllIntegers1To36_iff by auto
  with assms have len: "length ks = 4" by simp
  have inj: "inj (\<lambda>i::int. Num (of_int i))" by (simp add: inj_def)
  have uniq: "\<And>ks'. nums = map (\<lambda>i. Num (of_int i)) ks' \<Longrightarrow> ks' = ks"
    using ks(1) inj by (metis inj_map_eq_map)
  let ?P = "\<lambda>ks. Min (set ks) mod 3 \<noteq> 0 \<and> Min (set ks) \<le> 32
      \<and> set ks = {Min (set ks), Min (set ks) + 1, Min (set ks) + 3, Min (set ks) + 4}"
  have "?L = ?P ks"
    unfolding ks(1) validateCornerNumbers_ints [OF len ks(2)] by simp
  also have "\<dots> = ?R"
  proof
    assume "?P ks"
    with ks show ?R by (intro exI [of _ ks]) simp
  next
    assume ?R
    then show "?P ks"
    proof (elim exE conjE)
      fix ks' :: "int list"
      assume a: "nums = map (\<lambda>i. Num (of_int i)) ks'"
        and p: "Min (set ks') mod 3 \<noteq> 0" "Min (set ks') \<le> 32"
          "set ks' = {Min (set ks'), Min (set ks') + 1, Min (set ks') + 3, Min (set ks') + 4}"
      from uniq [OF a] have e: "ks' = ks" .
      from p show "?P ks" unfolding e by (intro conjI)
    qed
  qed
  finally show ?thesis .
qed

text \<open>
  C6. Four numbers proposed as a corner bet are accepted exactly when all are integers from
  1 to 36 and, with \<open>n\<close> the smallest of them, \<open>n mod 3 \<noteq> 0\<close>, \<open>n \<le> 32\<close> and the set
  of the four is \<open>{n, n + 1, n + 3, n + 4}\<close>. The corner 1, 2, 4, 5 is accepted and
  3, 4, 6, 7 is rejected.
\<close>

theorem validateCornerNumbers_geometry:
  assumes "length nums = 4"
  shows "(validateCornerNumbers nums = Inr ()) =
     (\<exists>ks. nums = map (\<lambda>i. Num (of_int i)) ks \<and> (\<forall>i \<in> set ks. 1 \<le> i \<and> i \<le> 36)
        \<and> Min (set ks) mod 3 \<noteq> 0 \<and> Min (set ks) \<le> 32
        \<and> set ks = {Min (set ks), Min (set ks) + 1, Min (set ks) + 3, Min (set ks) + 4})
   \<and> validateCornerNumbers [Num 1, Num 2, Num 4, Num 5] = Inr ()
   \<and> validateCornerNumbers [Num 3, Num 4, Num 6, Num 7] = Inl CornerNotSquare"
proof -
  note main = validateCornerNumbers_four [OF assms]
  have a: "validateCornerNumbers [Num 1, Num 2, Num 4, Num 5] = Inr ()"
    by (simp add: validateCornerNumbers_def areAllIntegers1To36_def js_rem_1 upt4)
  have b: "validateCornerNumbers [Num 3, Num 4, Num 6, Num 7] = Inl CornerNotSquare"
    by (simp add: validateCornerNumbers_def areAllIntegers1To36_def js_rem_3)
  from main a b show ?thesis by simp
qed

theorem validateCornerNumbers_geometry_witness:
  "validateCornerNumbers [Num 32, Num 35, Num 36, Num 33] = Inr ()"
proof -
  have ex: "\<exists>ks. [Num 32, Num 35, Num 36, Num 33] = map (\<lambda>i. Num (of_int i)) ks
        \<and> (\<forall>i \<in> set ks. 1 \<le> i \<and> i \<le> 36)
        \<and> Min (set ks) mod 3 \<noteq> 0 \<and> Min (set ks) \<le> 32
        \<and> set ks = {Min (set ks), Min (set ks) + 1, Min (set ks) + 3, Min (set ks) + 4}"
  proof -
    have m: "Min (set [32, 35, 36, 33 :: int]) = 32" by simp
    show ?thesis
      apply (rule exI [of _ "[32, 35, 36, 33]"])
      unfolding m
      apply simp
      apply blast
      done
  qed
  have len: "length [Num 32, Num 35, Num 36, Num 33] = 4" by simp
  show ?thesis
    by (rule validateCornerNumbers_geometry [OF len, THEN conjunct1, THEN iffD2, OF ex])
qed

subsection \<open>House edge\<close>

text \<open>An interval enclosure of the rounded computation: each operation moves a
  non-negative value by a factor between \<open>1 - d\<close> and \<open>1 + d\<close>.\<close>

lemma rnd_bounds:
  fixes rnd :: "rat \<Rightarrow> rat"
  assumes R: "\<forall>x. \<bar>rnd x - x\<bar> \<le> d * \<bar>x\<bar>" and d: "0 \<le> d" "d \<le> 1"
    and x: "0 \<le> lo" "lo \<le> x" "x \<le> hi"
  shows "lo * (1 - d) \<le> rnd x" and "rnd x \<le> hi * (1 + d)"
proof -
  from x have x0: "0 \<le> x" by simp
  from R have "\<bar>rnd x - x\<bar> \<le> d * \<bar>x\<bar>" by blast
  with x0 have b: "x - d * x \<le> rnd x" "rnd x \<le> x + d * x" by (simp_all add: abs_le_iff)
  have "lo * (1 - d) \<le> x * (1 - d)" using x d by (intro mult_right_mono) simp_all
  also have "\<dots> = x - d * x" by (simp add: algebra_simps)
  finally show "lo * (1 - d) \<le> rnd x" using b by simp
  have "x + d * x = x * (1 + d)" by (simp add: algebra_simps)
  also have "\<dots> \<le> hi * (1 + d)" using x d by (intro mult_right_mono) simp_all
  finally show "rnd x \<le> hi * (1 + d)" using b by simp
qed

lemma houseEdge_enclosure:
  fixes rnd :: "rat \<Rightarrow> rat" and n p d :: rat
  assumes R: "\<forall>x. \<bar>rnd x - x\<bar> \<le> d * \<bar>x\<bar>" and d: "0 \<le> d" "d < 1"
    and n: "0 < n" "n \<le> 38"
    and p: "p \<le> (38 - n) * (1 - d) / n * (1 - d)"
  defines "t \<equiv> rnd (rnd (38 - n) / n)"
  defines "h \<equiv> rnd (rnd (rnd (t - p) / rnd (t + 1)) * 100)"
  shows "((38 - n) * (1 - d) / n * (1 - d) - p) * (1 - d)
           / (((38 - n) * (1 + d) / n * (1 + d) + 1) * (1 + d)) * (1 - d) * 100 * (1 - d) \<le> h"
    and "h \<le> ((38 - n) * (1 + d) / n * (1 + d) - p) * (1 + d)
           / (((38 - n) * (1 - d) / n * (1 - d) + 1) * (1 - d)) * (1 + d) * 100 * (1 + d)"
proof -
  define a where "a = 1 - d"
  define b where "b = 1 + d"
  have a: "0 < a" "0 \<le> a" and b: "0 < b" using d by (simp_all add: a_def b_def)
  have d1: "d \<le> 1" using d by simp
  note rb = rnd_bounds [OF R d(1) d1, folded a_def b_def]
  define s where "s = rnd (38 - n)"
  have n0: "0 \<le> 38 - n" using n by simp
  have s: "(38 - n) * a \<le> s" "s \<le> (38 - n) * b"
    unfolding s_def by (rule rb(1) [OF n0 order_refl order_refl], rule rb(2) [OF n0 order_refl order_refl])
  define tlo where "tlo = (38 - n) * a / n * a"
  define thi where "thi = (38 - n) * b / n * b"
  have sn0: "0 \<le> (38 - n) * a / n" using n a by simp
  have sn: "(38 - n) * a / n \<le> s / n" "s / n \<le> (38 - n) * b / n"
    using s n by (simp_all add: divide_right_mono)
  have t: "tlo \<le> t" "t \<le> thi"
    unfolding t_def tlo_def thi_def s_def [symmetric]
    by (rule rb(1) [OF sn0 sn], rule rb(2) [OF sn0 sn])
  have tlo0: "0 \<le> tlo" unfolding tlo_def using sn0 a(2) by (rule mult_nonneg_nonneg)
  have p': "0 \<le> tlo - p" using p unfolding tlo_def a_def by simp
  define dd where "dd = rnd (t - p)"
  have tp: "tlo - p \<le> t - p" "t - p \<le> thi - p" using t by simp_all
  have dd: "(tlo - p) * a \<le> dd" "dd \<le> (thi - p) * b"
    unfolding dd_def by (rule rb(1) [OF p' tp], rule rb(2) [OF p' tp])
  have dd0: "0 \<le> (tlo - p) * a" using p' a(2) by (rule mult_nonneg_nonneg)
  define u where "u = rnd (t + 1)"
  have t1: "0 \<le> tlo + 1" "tlo + 1 \<le> t + 1" "t + 1 \<le> thi + 1" using t tlo0 by simp_all
  have u: "(tlo + 1) * a \<le> u" "u \<le> (thi + 1) * b"
    unfolding u_def by (rule rb(1) [OF t1], rule rb(2) [OF t1])
  have u0: "0 < (tlo + 1) * a" using tlo0 a by (intro mult_pos_pos) simp_all
  have q1: "(tlo - p) * a / ((thi + 1) * b) \<le> dd / u"
    using dd0 dd(1) u0 u by (intro frac_le) simp_all
  have q2: "dd / u \<le> (thi - p) * b / ((tlo + 1) * a)"
    using dd0 dd u0 u by (intro frac_le) simp_all
  have q0: "0 \<le> (tlo - p) * a / ((thi + 1) * b)"
    using dd0 u0 u by (intro divide_nonneg_nonneg) simp_all
  define q where "q = rnd (dd / u)"
  have q: "(tlo - p) * a / ((thi + 1) * b) * a \<le> q" "q \<le> (thi - p) * b / ((tlo + 1) * a) * b"
    unfolding q_def by (rule rb(1) [OF q0 q1 q2], rule rb(2) [OF q0 q1 q2])
  have ql0: "0 \<le> (tlo - p) * a / ((thi + 1) * b) * a" using q0 a(2) by (rule mult_nonneg_nonneg)
  have h1: "(tlo - p) * a / ((thi + 1) * b) * a * 100 \<le> q * 100"
    and h2: "q * 100 \<le> (thi - p) * b / ((tlo + 1) * a) * b * 100"
    and h0: "0 \<le> (tlo - p) * a / ((thi + 1) * b) * a * 100"
  proof -
    have c: "(0::rat) \<le> 100" by simp
    show "(tlo - p) * a / ((thi + 1) * b) * a * 100 \<le> q * 100"
      using q(1) c by (rule mult_right_mono)
    show "q * 100 \<le> (thi - p) * b / ((tlo + 1) * a) * b * 100"
      using q(2) c by (rule mult_right_mono)
    show "0 \<le> (tlo - p) * a / ((thi + 1) * b) * a * 100"
      using ql0 c by (rule mult_nonneg_nonneg)
  qed
  have h: "h = rnd (q * 100)" unfolding h_def q_def dd_def u_def ..
  have "(tlo - p) * a / ((thi + 1) * b) * a * 100 * a \<le> h"
    unfolding h by (rule rb(1) [OF h0 h1 h2])
  then show "((38 - n) * (1 - d) / n * (1 - d) - p) * (1 - d)
           / (((38 - n) * (1 + d) / n * (1 + d) + 1) * (1 + d)) * (1 - d) * 100 * (1 - d) \<le> h"
    unfolding tlo_def thi_def a_def b_def .
  have "h \<le> (thi - p) * b / ((tlo + 1) * a) * b * 100 * b"
    unfolding h by (rule rb(2) [OF h0 h1 h2])
  then show "h \<le> ((38 - n) * (1 + d) / n * (1 + d) - p) * (1 + d)
           / (((38 - n) * (1 - d) / n * (1 - d) + 1) * (1 - d)) * (1 + d) * 100 * (1 + d)"
    unfolding tlo_def thi_def a_def b_def .
qed

lemma houseEdge_within:
  fixes rnd :: "rat \<Rightarrow> rat" and n p :: rat
  assumes R53: "\<forall>x. \<bar>rnd x - x\<bar> \<le> \<bar>x\<bar> / 2 ^ 53"
    and np: "(n, p) \<in> {(1, 35), (2, 17), (3, 11), (4, 8), (6, 5), (12, 2), (18, 1)}"
  shows "\<bar>rnd (rnd (rnd (rnd (rnd (38 - n) / n) - p) / rnd (rnd (rnd (38 - n) / n) + 1)) * 100)
           - 526 / 100\<bar> \<le> 1 / 100"
proof -
  have R: "\<forall>x. \<bar>rnd x - x\<bar> \<le> (1 / 1000000) * \<bar>x\<bar>"
  proof
    fix x
    have "\<bar>rnd x - x\<bar> \<le> \<bar>x\<bar> / 2 ^ 53" using R53 by blast
    also have "\<dots> \<le> \<bar>x\<bar> / 1000000" by (intro divide_left_mono) simp_all
    finally show "\<bar>rnd x - x\<bar> \<le> (1 / 1000000) * \<bar>x\<bar>" by simp
  qed
  note enc = houseEdge_enclosure [OF R, of n p]
  from np consider "n = 1 \<and> p = 35" | "n = 2 \<and> p = 17" | "n = 3 \<and> p = 11" | "n = 4 \<and> p = 8"
    | "n = 6 \<and> p = 5" | "n = 12 \<and> p = 2" | "n = 18 \<and> p = 1"
    by auto
  then show ?thesis
  proof cases
    case 1
    then have n: "n = 1" and p: "p = 35" by simp_all
    from enc show ?thesis unfolding n p by (simp add: abs_le_iff)
  next
    case 2
    then have n: "n = 2" and p: "p = 17" by simp_all
    from enc show ?thesis unfolding n p by (simp add: abs_le_iff)
  next
    case 3
    then have n: "n = 3" and p: "p = 11" by simp_all
    from enc show ?thesis unfolding n p by (simp add: abs_le_iff)
  next
    case 4
    then have n: "n = 4" and p: "p = 8" by simp_all
    from enc show ?thesis unfolding n p by (simp add: abs_le_iff)
  next
    case 5
    then have n: "n = 6" and p: "p = 5" by simp_all
    from enc show ?thesis unfolding n p by (simp add: abs_le_iff)
  next
    case 6
    then have n: "n = 12" and p: "p = 2" by simp_all
    from enc show ?thesis unfolding n p by (simp add: abs_le_iff)
  next
    case 7
    then have n: "n = 18" and p: "p = 1" by simp_all
    from enc show ?thesis unfolding n p by (simp add: abs_le_iff)
  qed
qed

lemma calculateHouseEdge_entry:
  "map_of betTypes t = Some e \<Longrightarrow>
   calculateHouseEdge rnd t =
     Num (rnd (rnd (rnd (rnd (rnd (38 - of_nat (numberCount e)) / of_nat (numberCount e)) - payout e)
            / rnd (rnd (rnd (38 - of_nat (numberCount e)) / of_nat (numberCount e)) + 1)) * 100))"
  by (simp add: calculateHouseEdge_def betTypes_get_def Let_def)

lemma catalog_pairs_all:
  "list_all (\<lambda>ke. (of_nat (numberCount (snd ke)) :: rat, payout (snd ke))
     \<in> {(1, 35), (2, 17), (3, 11), (4, 8), (6, 5), (12, 2), (18, 1)}) betTypes"
  by (simp add: betTypes_def)

lemma catalog_pairs:
  assumes "map_of betTypes t = Some e"
  shows "(of_nat (numberCount e) :: rat, payout e)
     \<in> {(1, 35), (2, 17), (3, 11), (4, 8), (6, 5), (12, 2), (18, 1)}"
proof -
  from assms have "(t, e) \<in> set betTypes" by (rule map_of_SomeD)
  with catalog_pairs_all show ?thesis unfolding list_all_iff by fastforce
qed

lemma catalog_key_entry: "t \<in> fst ` set betTypes \<Longrightarrow> \<exists>e. map_of betTypes t = Some e"
  using map_of_eq_None_iff [of betTypes t] by (cases "map_of betTypes t") blast+

text \<open>
  C7. For every bet type of the catalog, the house-edge computation (true odds
  \<open>(38 - n) / n\<close>, edge \<open>100 * (trueOdds - payout) / (trueOdds + 1)\<close> on the catalog's
  \<open>numberCount\<close> and \<open>payout\<close>) yields exactly \<open>200 / 38\<close> percent in exact arithmetic,
  and a value within 0.01 of 5.26 under every rounding of the six arithmetic operations
  whose relative error is at most \<open>2^-53\<close>, the unit roundoff of IEEE doubles.
\<close>

theorem calculateHouseEdge_standard:
  assumes "t \<in> fst ` set betTypes"
  shows "calculateHouseEdge (\<lambda>x. x) t = Num (200 / 38)
     \<and> (\<forall>rnd. (\<forall>x. \<bar>rnd x - x\<bar> \<le> \<bar>x\<bar> / 2 ^ 53) \<longrightarrow>
          (\<exists>h. calculateHouseEdge rnd t = Num h \<and> \<bar>h - 526 / 100\<bar> \<le> 1 / 100))"
proof -
  from assms obtain e where e: "map_of betTypes t = Some e"
    using catalog_key_entry by blast
  define n :: rat where "n = of_nat (numberCount e)"
  define p where "p = payout e"
  have np: "(n, p) \<in> {(1, 35), (2, 17), (3, 11), (4, 8), (6, 5), (12, 2), (18, 1)}"
    unfolding n_def p_def using e by (rule catalog_pairs)
  have "((38 - n) / n - p) / ((38 - n) / n + 1) * 100 = 200 / 38"
    using np by auto
  then have exact: "calculateHouseEdge (\<lambda>x. x) t = Num (200 / 38)"
    unfolding calculateHouseEdge_entry [OF e] n_def p_def by simp
  have "\<exists>h. calculateHouseEdge rnd t = Num h \<and> \<bar>h - 526 / 100\<bar> \<le> 1 / 100"
    if R: "\<forall>x. \<bar>rnd x - x\<bar> \<le> \<bar>x\<bar> / 2 ^ 53" for rnd
    unfolding calculateHouseEdge_entry [OF e]
    using houseEdge_within [OF R np] unfolding n_def p_def by blast
  with exact show ?thesis by blast
qed

theorem calculateHouseEdge_standard_witness:
  "calculateHouseEdge (\<lambda>x. x) ''straight'' = Num (100 / 19)
   \<and> (\<exists>h. calculateHouseEdge (\<lambda>x. x * (1 + 1 / 2 ^ 53)) ''straight'' = Num h
          \<and> \<bar>h - 526 / 100\<bar> \<le> 1 / 100)"
proof -
  have k: "''straight'' \<in> fst ` set betTypes" by (simp add: betTypes_def)
  have R: "\<forall>x::rat. \<bar>x * (1 + 1 / 2 ^ 53) - x\<bar> \<le> \<bar>x\<bar> / 2 ^ 53"
    by (simp add: algebra_simps abs_mult)
  note th = calculateHouseEdge_standard [OF k]
  have "calculateHouseEdge (\<lambda>x. x) ''straight'' = Num (200 / 38)"
    using th by (rule conjunct1)
  then have a: "calculateHouseEdge (\<lambda>x. x) ''straight'' = Num (100 / 19)" by simp
  have b: "\<exists>h. calculateHouseEdge (\<lambda>x. x * (1 + 1 / 2 ^ 53)) ''straight'' = Num h
          \<and> \<bar>h - 526 / 100\<bar> \<le> 1 / 100"
    using th [THEN conjunct2, THEN spec, THEN mp, OF R] .
  from a b show ?thesis by (rule conjI)
qed

subsection \<open>Placing a sequence of bets\<close>

lemma sumAmounts_snoc: "sumAmounts rnd (bs @ [b]) = rnd (sumAmounts rnd bs + amount b)"
  by (simp add: sumAmounts_def)

lemma validateBetAmount_Inr:
  "validateBetAmount amt = Inr a \<longleftrightarrow> amt = Num a \<and> minBet \<le> a \<and> a \<le> maxBet"
  by (cases amt) auto

lemma betShape_createBet [simp]: "betShape (createBet s t ns a pos) = (t, ns, a)"
  by (simp add: betShape_def createBet_def)

lemma pushBet_simps [simp]:
  "currentBets (pushBet b st) = currentBets st @ [b]"
  "balance (pushBet b st) = balance st"
  "history (pushBet b st) = history st"
  "getTotalBetAmount rnd (pushBet b st) = rnd (getTotalBetAmount rnd st + amount b)"
  by (simp_all add: pushBet_def getTotalBetAmount_def sumAmounts_snoc)

lemma placeBet_kept:
  assumes "placeable b"
    and "\<not> js_gt (Finite (amount b)) (js_sub rnd (balance st) (Finite (getTotalBetAmount rnd st)))"
    and "\<not> rnd (getTotalBetAmount rnd st + amount b) > tableMax"
  shows "placeBet rnd s (btype b) (numbers b) (Num (amount b)) pos st =
     (Inr (createBet s (btype b) (numbers b) (amount b) pos),
      pushBet (createBet s (btype b) (numbers b) (amount b) pos) st)"
  using assms
  by (simp add: placeable_def placeBet_def validateBalance_def validateTableMax_def Let_def)

lemma placeBet_skipped:
  assumes "\<not> (placeable b
      \<and> \<not> js_gt (Finite (amount b)) (js_sub rnd (balance st) (Finite (getTotalBetAmount rnd st)))
      \<and> \<not> rnd (getTotalBetAmount rnd st + amount b) > tableMax)"
  shows "\<exists>e. placeBet rnd s (btype b) (numbers b) (Num (amount b)) pos st = (Inl e, st)"
proof (cases "validateBet (btype b) (numbers b)")
  case (Inl e)
  then show ?thesis by (simp add: placeBet_def)
next
  case (Inr u)
  show ?thesis
  proof (cases "validateBetAmount (Num (amount b))")
    case (Inl e)
    with Inr show ?thesis by (simp add: placeBet_def)
  next
    case (Inr a)
    then have a: "a = amount b" using validateBetAmount_Inr [of "Num (amount b)" a] by simp
    with Inr \<open>validateBet (btype b) (numbers b) = Inr u\<close> have "placeable b"
      by (simp add: placeable_def)
    with assms Inr a \<open>validateBet (btype b) (numbers b) = Inr u\<close> show ?thesis
      by (auto simp: placeBet_def validateBalance_def validateTableMax_def Let_def)
  qed
qed

lemma placeEach_accepted:
  "placeEach rnd env i bs placed st = (placed', st') \<Longrightarrow>
   \<exists>new. placed' = placed @ new \<and> st' = st\<lparr>currentBets := currentBets st @ new\<rparr>
     \<and> map betShape new
         = map betShape (acceptedCopies rnd (balance st) (getTotalBetAmount rnd st) bs)"
proof (induction bs arbitrary: i placed st)
  case Nil
  then show ?case by simp
next
  case (Cons b bs)
  let ?c = "createBet (env i) (btype b) (numbers b) (amount b) (position b)"
  let ?fits = "placeable b
      \<and> \<not> js_gt (Finite (amount b)) (js_sub rnd (balance st) (Finite (getTotalBetAmount rnd st)))
      \<and> \<not> rnd (getTotalBetAmount rnd st + amount b) > tableMax"
  show ?case
  proof (cases ?fits)
    case True
    then have ok: "placeBet rnd (env i) (btype b) (numbers b) (Num (amount b)) (position b) st
        = (Inr ?c, pushBet ?c st)"
      by (intro placeBet_kept) simp_all
    with Cons.prems
    have "placeEach rnd env (Suc i) bs (placed @ [?c]) (pushBet ?c st) = (placed', st')"
      by simp
    from Cons.IH [OF this] obtain new where new: "placed' = (placed @ [?c]) @ new"
      "st' = (pushBet ?c st)\<lparr>currentBets := currentBets (pushBet ?c st) @ new\<rparr>"
      "map betShape new = map betShape (acceptedCopies rnd (balance (pushBet ?c st))
          (getTotalBetAmount rnd (pushBet ?c st)) bs)"
      by blast
    have a: "amount ?c = amount b" by (simp add: createBet_def)
    have s: "betShape ?c = betShape b" by (simp add: betShape_def [of b])
    have st': "st' = st\<lparr>currentBets := currentBets st @ (?c # new)\<rparr>"
      using new(2) by (simp add: pushBet_def)
    have "map betShape (?c # new)
        = map betShape (acceptedCopies rnd (balance st) (getTotalBetAmount rnd st) (b # bs))"
      using True new(3) s by (simp add: a)
    with new(1) st' show ?thesis by (intro exI [of _ "?c # new"]) simp
  next
    case False
    from placeBet_skipped [OF False] obtain e where
      "placeBet rnd (env i) (btype b) (numbers b) (Num (amount b)) (position b) st = (Inl e, st)"
      by blast
    with Cons.prems have "placeEach rnd env (Suc i) bs placed st = (placed', st')" by simp
    from Cons.IH [OF this] obtain new where new: "placed' = placed @ new"
      "st' = st\<lparr>currentBets := currentBets st @ new\<rparr>"
      "map betShape new
         = map betShape (acceptedCopies rnd (balance st) (getTotalBetAmount rnd st) bs)"
      by blast
    have "map betShape new
        = map betShape (acceptedCopies rnd (balance st) (getTotalBetAmount rnd st) (b # bs))"
      using False new(3) by auto
    with new(1,2) show ?thesis by blast
  qed
qed

lemma placeable_amount: "placeable b \<Longrightarrow> 1 \<le> amount b"
  using validateBetAmount_Inr [of "Num (amount b)" "amount b"]
  by (simp add: placeable_def minBet_def)

text \<open>Whole-number stakes: the sums the code computes are exact.\<close>

lemma whole_sum_exact:
  assumes ex: "\<forall>k::int. \<bar>k\<bar> \<le> 2 ^ 53 \<longrightarrow> rnd (of_int k) = of_int k"
    and "\<forall>b \<in> set bs. amount b \<in> \<int> \<and> 0 \<le> amount b"
    and "of_int t + sum_list (map amount bs) \<le> 2 ^ 53" and "0 \<le> t"
  shows "foldl (\<lambda>total b. rnd (total + amount b)) (of_int t) bs
     = of_int t + sum_list (map amount bs)"
  using assms(2-)
proof (induction bs arbitrary: t)
  case Nil
  then show ?case by simp
next
  case (Cons b bs)
  from Cons.prems(1) obtain a :: int where a: "amount b = of_int a"
    by (auto elim: Ints_cases)
  with Cons.prems(1) have a0: "0 \<le> a" by simp
  from Cons.prems(1) have rest: "0 \<le> sum_list (map amount bs)"
    by (intro sum_list_nonneg) auto
  have "(of_int (t + a) :: rat) \<le> 2 ^ 53" using Cons.prems(2) rest by (simp add: a)
  then have "t + a \<le> 2 ^ 53" by simp
  with a0 Cons.prems(3) have "\<bar>t + a\<bar> \<le> 2 ^ 53" by simp
  with ex have r: "rnd (of_int t + of_int a) = of_int (t + a)"
    using of_int_add [of t a, where ?'a = rat] by metis
  have "foldl (\<lambda>total b. rnd (total + amount b)) (of_int (t + a)) bs
      = of_int (t + a) + sum_list (map amount bs)"
    using Cons.prems a0 by (intro Cons.IH) (simp_all add: a)
  then show ?case by (simp add: a r)
qed

lemma sumAmounts_whole:
  assumes "\<forall>k::int. \<bar>k\<bar> \<le> 2 ^ 53 \<longrightarrow> rnd (of_int k) = of_int k"
    and "\<forall>b \<in> set bs. amount b \<in> \<int> \<and> 0 \<le> amount b"
    and "sum_list (map amount bs) \<le> 2 ^ 53"
  shows "sumAmounts rnd bs = sum_list (map amount bs)"
  using whole_sum_exact [OF assms(1,2), of 0] assms(3) by (simp add: sumAmounts_def)

lemma whole_sum_int:
  "\<forall>b \<in> set bs. amount b \<in> \<int> \<and> 0 \<le> amount b \<Longrightarrow>
   \<exists>t::int. sum_list (map amount bs) = of_int t \<and> 0 \<le> t"
proof (induction bs)
  case Nil
  then show ?case by (intro exI [of _ 0]) simp
next
  case (Cons b bs)
  then obtain t :: int where t: "sum_list (map amount bs) = of_int t" "0 \<le> t" by auto
  from Cons.prems obtain a :: int where a: "amount b = of_int a" by (auto elim: Ints_cases)
  with Cons.prems have "0 \<le> a" by simp
  with t a show ?case by (intro exI [of _ "a + t"]) simp
qed

lemma acceptedCopies_whole:
  assumes ex: "\<forall>k::int. \<bar>k\<bar> \<le> 2 ^ 53 \<longrightarrow> rnd (of_int k) = of_int k"
    and "\<forall>b \<in> set bs. placeable b \<and> amount b \<in> \<int>"
    and "0 \<le> t" and "\<bar>B\<bar> \<le> 2 ^ 53"
    and "of_int t + sum_list (map amount bs) \<le> tableMax"
    and "of_int t + sum_list (map amount bs) \<le> of_int B"
  shows "acceptedCopies rnd (Finite (of_int B)) (of_int t) bs = bs"
  using assms(2-)
proof (induction bs arbitrary: t)
  case Nil
  then show ?case by simp
next
  case (Cons b bs)
  from Cons.prems(1) have pb: "placeable b" and rs: "\<forall>b \<in> set bs. placeable b \<and> amount b \<in> \<int>"
    by simp_all
  from Cons.prems(1) obtain a :: int where a: "amount b = of_int a" by (auto elim: Ints_cases)
  from placeable_amount [OF pb] a have a1: "1 \<le> a" by simp
  have "0 \<le> amount x" if "x \<in> set bs" for x
    using rs that placeable_amount [of x] by auto
  then have rest: "0 \<le> sum_list (map amount bs)"
    by (intro sum_list_nonneg) auto
  have ta: "(of_int (t + a) :: rat) \<le> tableMax" using Cons.prems(4) rest by (simp add: a)
  then have "t + a \<le> 10000" by (simp add: tableMax_def)
  with a1 Cons.prems(2) have "\<bar>t + a\<bar> \<le> 2 ^ 53" by simp
  with ex have r1: "rnd (of_int t + of_int a) = of_int (t + a)"
    using of_int_add [of t a, where ?'a = rat] by metis
  have tb: "(of_int (t + a) :: rat) \<le> of_int B" using Cons.prems(5) rest by (simp add: a)
  then have le: "t + a \<le> B" by (simp only: of_int_le_iff)
  with a1 Cons.prems(2,3) have "\<bar>B - t\<bar> \<le> 2 ^ 53" by simp
  with ex have r2: "rnd (of_int B - of_int t) = of_int (B - t)"
    using of_int_diff [of B t, where ?'a = rat] by metis
  have c1: "\<not> js_gt (Finite (amount b)) (js_sub rnd (Finite (of_int B)) (Finite (of_int t)))"
    using le by (simp add: a r2)
  have c2: "\<not> rnd (of_int t + amount b) > tableMax" using ta by (simp add: a r1)
  have "acceptedCopies rnd (Finite (of_int B)) (of_int (t + a)) bs = bs"
    using rs Cons.prems a1 by (intro Cons.IH) (simp_all add: a)
  with pb c1 c2 show ?case by (simp add: a r1)
qed

subsection \<open>Doubling and repeating\<close>

lemma canAffordBet_iff:
  "canAffordBet rnd st a
     = (\<exists>B. balance st = Finite B \<and> a \<le> rnd (B - getTotalBetAmount rnd st))"
  by (cases "balance st") (simp_all add: canAffordBet_def Let_def)

lemma doubleAllBets_unaffordable:
  "currentBets st \<noteq> [] \<Longrightarrow> \<not> canAffordBet rnd st (getTotalBetAmount rnd st) \<Longrightarrow>
   doubleAllBets rnd env st = (Inl InsufficientToDouble, st)"
  by (simp add: doubleAllBets_def Let_def getTotalBetAmount_def)

lemma doubleAllBets_affordable:
  "currentBets st \<noteq> [] \<Longrightarrow> canAffordBet rnd st (getTotalBetAmount rnd st) \<Longrightarrow>
   doubleAllBets rnd env st =
     (Inr (fst (placeEach rnd env 0 (currentBets st) [] st)),
      snd (placeEach rnd env 0 (currentBets st) [] st))"
  by (simp add: doubleAllBets_def Let_def getTotalBetAmount_def split: prod.splits)

lemma doubleAllBets_copies:
  assumes "currentBets st \<noteq> []" and "canAffordBet rnd st (getTotalBetAmount rnd st)"
  shows "\<exists>placed. doubleAllBets rnd env st
             = (Inr placed, st\<lparr>currentBets := currentBets st @ placed\<rparr>)
           \<and> map betShape placed = map betShape
               (acceptedCopies rnd (balance st) (getTotalBetAmount rnd st) (currentBets st))"
proof -
  obtain placed st' where run: "placeEach rnd env 0 (currentBets st) [] st = (placed, st')"
    by (cases "placeEach rnd env 0 (currentBets st) [] st")
  have d: "doubleAllBets rnd env st = (Inr placed, st')"
    unfolding doubleAllBets_affordable [OF assms] run by simp
  from placeEach_accepted [OF run] d show ?thesis by auto
qed

lemma betShape_amounts: "map betShape xs = map betShape ys \<Longrightarrow> map amount xs = map amount ys"
proof -
  assume a: "map betShape xs = map betShape ys"
  have "map amount xs = map (snd \<circ> snd) (map betShape xs)" by (simp add: betShape_def)
  also have "\<dots> = map (snd \<circ> snd) (map betShape ys)" using a by simp
  also have "\<dots> = map amount ys" by (simp add: betShape_def)
  finally show ?thesis .
qed

lemma doubleAllBets_whole:
  assumes ne: "currentBets st \<noteq> []"
    and ex: "\<forall>k::int. \<bar>k\<bar> \<le> 2 ^ 53 \<longrightarrow> rnd (of_int k) = of_int k"
    and v: "\<forall>b \<in> set (currentBets st). placeable b \<and> amount b \<in> \<int>"
    and bal: "\<exists>B::int. balance st = Finite (of_int B) \<and> \<bar>B\<bar> \<le> 2 ^ 53
        \<and> 2 * sum_list (map amount (currentBets st)) \<le> of_int B"
    and tm: "2 * sum_list (map amount (currentBets st)) \<le> tableMax"
  shows "\<exists>placed. doubleAllBets rnd env st
             = (Inr placed, st\<lparr>currentBets := currentBets st @ placed\<rparr>)
           \<and> map betShape placed = map betShape (currentBets st)
           \<and> getTotalBetAmount rnd st = sum_list (map amount (currentBets st))
           \<and> getTotalBetAmount rnd (st\<lparr>currentBets := currentBets st @ placed\<rparr>)
               = 2 * sum_list (map amount (currentBets st))"
proof -
  let ?bs = "currentBets st"
  let ?S = "sum_list (map amount ?bs)"
  from bal obtain B :: int where B: "balance st = Finite (of_int B)" "\<bar>B\<bar> \<le> 2 ^ 53"
    "2 * ?S \<le> of_int B" by blast
  have nn: "\<forall>b \<in> set ?bs. amount b \<in> \<int> \<and> 0 \<le> amount b"
  proof
    fix b assume "b \<in> set ?bs"
    with v placeable_amount [of b] show "amount b \<in> \<int> \<and> 0 \<le> amount b" by auto
  qed
  from whole_sum_int [OF nn] obtain t :: int where t: "?S = of_int t" "0 \<le> t" by blast
  have S0: "0 \<le> ?S" using t by simp
  have Sle: "?S \<le> 2 ^ 53" using tm S0 by (simp add: tableMax_def)
  have total: "getTotalBetAmount rnd st = ?S"
    unfolding getTotalBetAmount_def by (rule sumAmounts_whole [OF ex nn Sle])
  have "(of_int (2 * t) :: rat) \<le> of_int B" using B(3) by (simp add: t(1))
  then have tB: "2 * t \<le> B" by (simp only: of_int_le_iff)
  with t(2) B(2) have "\<bar>B - t\<bar> \<le> 2 ^ 53" by simp
  with ex have r: "rnd (of_int B - of_int t) = of_int (B - t)"
    using of_int_diff [of B t, where ?'a = rat] by metis
  have aff: "canAffordBet rnd st (getTotalBetAmount rnd st)"
    unfolding canAffordBet_iff total using tB by (simp add: B(1) t(1) r)
  from doubleAllBets_copies [OF ne aff, of env] obtain placed where
    d: "doubleAllBets rnd env st = (Inr placed, st\<lparr>currentBets := ?bs @ placed\<rparr>)"
    and m: "map betShape placed = map betShape
               (acceptedCopies rnd (balance st) (getTotalBetAmount rnd st) ?bs)"
    by blast
  have "acceptedCopies rnd (Finite (of_int B)) (of_int t) ?bs = ?bs"
    using tm B(3) by (intro acceptedCopies_whole [OF ex v t(2) B(2)]) (simp_all add: t(1))
  with m have m': "map betShape placed = map betShape ?bs" by (simp add: total B(1) t(1))
  then have am: "map amount placed = map amount ?bs" by (rule betShape_amounts)
  have nn2: "\<forall>b \<in> set (?bs @ placed). amount b \<in> \<int> \<and> 0 \<le> amount b"
  proof
    fix b assume "b \<in> set (?bs @ placed)"
    then have "amount b \<in> set (map amount ?bs) \<union> set (map amount placed)" by auto
    with am have "amount b \<in> set (map amount ?bs)" by simp
    with nn show "amount b \<in> \<int> \<and> 0 \<le> amount b" by auto
  qed
  have "sum_list (map amount (?bs @ placed)) = ?S + sum_list (map amount placed)" by simp
  also have "\<dots> = 2 * ?S" unfolding am by simp
  finally have S2: "sum_list (map amount (?bs @ placed)) = 2 * ?S" .
  have "sum_list (map amount (?bs @ placed)) \<le> 2 ^ 53"
    unfolding S2 using tm by (simp add: tableMax_def)
  from sumAmounts_whole [OF ex nn2 this]
  have "sumAmounts rnd (?bs @ placed) = 2 * ?S" unfolding S2 .
  then have "getTotalBetAmount rnd (st\<lparr>currentBets := ?bs @ placed\<rparr>) = 2 * ?S"
    by (simp add: getTotalBetAmount_def)
  with d m' total show ?thesis by blast
qed

text \<open>
  C3, amended. On a non-empty ledger \<open>doubleAllBets\<close> is all-or-nothing with respect to
  affordability only. The player can afford the doubling when the balance is a number and
  the ledger total is at most the balance minus the ledger total, total and difference as
  the code computes them, in doubles. When the player cannot, the operation reports
  insufficient balance and leaves the state unchanged. Otherwise it succeeds: each ledger
  bet is submitted again, in order, through \<open>placeBet\<close>; the copies it accepts are
  appended to the ledger and returned, and they are exactly the copies of
  \<open>acceptedCopies\<close>: those that are valid placements, whose stake does not exceed the
  balance minus the running total and does not bring the running total above the table
  maximum. Nothing else in the state changes. When the balance and all stakes are whole
  numbers, every ledger bet is a valid placement, and twice the sum of the stakes exceeds
  neither the balance nor the table maximum, one copy is appended for every bet and the
  total staked exactly doubles.
\<close>

theorem doubleAllBets_affordability:
  assumes ne: "currentBets st \<noteq> []"
  shows "canAffordBet rnd st (getTotalBetAmount rnd st)
           = (\<exists>B. balance st = Finite B
                \<and> getTotalBetAmount rnd st \<le> rnd (B - getTotalBetAmount rnd st))
       \<and> (\<not> canAffordBet rnd st (getTotalBetAmount rnd st) \<longrightarrow>
            doubleAllBets rnd env st = (Inl InsufficientToDouble, st))
       \<and> (canAffordBet rnd st (getTotalBetAmount rnd st) \<longrightarrow>
            (\<exists>placed. doubleAllBets rnd env st
                 = (Inr placed, st\<lparr>currentBets := currentBets st @ placed\<rparr>)
               \<and> map betShape placed = map betShape
                   (acceptedCopies rnd (balance st) (getTotalBetAmount rnd st) (currentBets st))))
       \<and> ((\<forall>k::int. \<bar>k\<bar> \<le> 2 ^ 53 \<longrightarrow> rnd (of_int k) = of_int k)
          \<and> (\<forall>b \<in> set (currentBets st). placeable b \<and> amount b \<in> \<int>)
          \<and> (\<exists>B::int. balance st = Finite (of_int B) \<and> \<bar>B\<bar> \<le> 2 ^ 53
                \<and> 2 * sum_list (map amount (currentBets st)) \<le> of_int B)
          \<and> 2 * sum_list (map amount (currentBets st)) \<le> tableMax \<longrightarrow>
            (\<exists>placed. doubleAllBets rnd env st
                 = (Inr placed, st\<lparr>currentBets := currentBets st @ placed\<rparr>)
               \<and> map betShape placed = map betShape (currentBets st)
               \<and> getTotalBetAmount rnd st = sum_list (map amount (currentBets st))
               \<and> getTotalBetAmount rnd (st\<lparr>currentBets := currentBets st @ placed\<rparr>)
                   = 2 * sum_list (map amount (currentBets st))))"
proof (intro conjI impI)
  show "canAffordBet rnd st (getTotalBetAmount rnd st)
           = (\<exists>B. balance st = Finite B
                \<and> getTotalBetAmount rnd st \<le> rnd (B - getTotalBetAmount rnd st))"
    by (rule canAffordBet_iff)
next
  assume "\<not> canAffordBet rnd st (getTotalBetAmount rnd st)"
  with ne show "doubleAllBets rnd env st = (Inl InsufficientToDouble, st)"
    by (rule doubleAllBets_unaffordable)
next
  assume "canAffordBet rnd st (getTotalBetAmount rnd st)"
  with ne show "\<exists>placed. doubleAllBets rnd env st
                 = (Inr placed, st\<lparr>currentBets := currentBets st @ placed\<rparr>)
               \<and> map betShape placed = map betShape
                   (acceptedCopies rnd (balance st) (getTotalBetAmount rnd st) (currentBets st))"
    by (rule doubleAllBets_copies)
next
  assume h: "(\<forall>k::int. \<bar>k\<bar> \<le> 2 ^ 53 \<longrightarrow> rnd (of_int k) = of_int k)
          \<and> (\<forall>b \<in> set (currentBets st). placeable b \<and> amount b \<in> \<int>)
          \<and> (\<exists>B::int. balance st = Finite (of_int B) \<and> \<bar>B\<bar> \<le> 2 ^ 53
                \<and> 2 * sum_list (map amount (currentBets st)) \<le> of_int B)
          \<and> 2 * sum_list (map amount (currentBets st)) \<le> tableMax"
  show "\<exists>placed. doubleAllBets rnd env st
                 = (Inr placed, st\<lparr>currentBets := currentBets st @ placed\<rparr>)
               \<and> map betShape placed = map betShape (currentBets st)
               \<and> getTotalBetAmount rnd st = sum_list (map amount (currentBets st))
               \<and> getTotalBetAmount rnd (st\<lparr>currentBets := currentBets st @ placed\<rparr>)
                   = 2 * sum_list (map amount (currentBets st))"
    using h by (intro doubleAllBets_whole [OF ne]) blast+
qed

lemma validateBet_straight_17: "validateBet ''straight'' [Num 17] = Inr ()"
  by (simp add: validateBet_def betTypes_get_def betTypes_def wheelOrder_def)

lemma placeBet_straight_17:
  "minBet \<le> a \<Longrightarrow> a \<le> maxBet \<Longrightarrow>
   placeBet rnd s ''straight'' [Num 17] (Num a) pos st =
     (if js_gt (Finite a) (js_sub rnd (balance st) (Finite (getTotalBetAmount rnd st)))
        then (Inl (InsufficientAvailable
                (js_sub rnd (balance st) (Finite (getTotalBetAmount rnd st)))), st)
      else if rnd (getTotalBetAmount rnd st + a) > tableMax then (Inl (TableMaximum tableMax), st)
      else (Inr (createBet s ''straight'' [Num 17] a pos),
            pushBet (createBet s ''straight'' [Num 17] a pos) st))"
  by (simp add: placeBet_def validateBet_straight_17 validateBalance_def validateTableMax_def Let_def)

lemma doubleAllBets_six:
  "fst (doubleAllBets fl (\<lambda>i. (''d'', 1))
       \<lparr>balance = Finite 20000,
        currentBets = replicate 6 \<lparr>bet_id = ''b'', btype = ''straight'', numbers = [Num 17],
                                   amount = 1000, position = None, timestamp = 0\<rparr>,
        history = []\<rparr>)
     = Inr (replicate 4 \<lparr>bet_id = ''d'', btype = ''straight'', numbers = [Num 17],
                         amount = 1000, position = None, timestamp = 1\<rparr>)
   \<and> length (currentBets (snd (doubleAllBets fl (\<lambda>i. (''d'', 1))
       \<lparr>balance = Finite 20000,
        currentBets = replicate 6 \<lparr>bet_id = ''b'', btype = ''straight'', numbers = [Num 17],
                                   amount = 1000, position = None, timestamp = 0\<rparr>,
        history = []\<rparr>))) = 10"
  by (simp add: numeral_eq_Suc doubleAllBets_def canAffordBet_def getTotalBetAmount_def
      sumAmounts_def placeBet_straight_17 minBet_def maxBet_def tableMax_def createBet_def
      pushBet_def Let_def fl_numeral)

lemma doubleAllBets_frac:
  "fl (34 / 5) = 7656119366529843 / 1125899906842624
   \<and> fl (12 / 5) = 5404319552844595 / 2251799813685248
   \<and> 2 * (1 + 5404319552844595 / 2251799813685248) \<le> (7656119366529843 / 1125899906842624 :: rat)
   \<and> fst (doubleAllBets fl (\<lambda>i. (''d'', 1))
       \<lparr>balance = Finite (7656119366529843 / 1125899906842624),
        currentBets = [\<lparr>bet_id = ''a'', btype = ''straight'', numbers = [Num 17],
                        amount = 1, position = None, timestamp = 0\<rparr>,
                       \<lparr>bet_id = ''b'', btype = ''straight'', numbers = [Num 17],
                        amount = 5404319552844595 / 2251799813685248, position = None,
                        timestamp = 0\<rparr>],
        history = []\<rparr>)
     = Inr [\<lparr>bet_id = ''d'', btype = ''straight'', numbers = [Num 17],
             amount = 1, position = None, timestamp = 1\<rparr>]"
  by code_simp

text \<open>
  C3, as stated, fails. With six straight bets of 1000 and a balance of 20000 the doubling
  is affordable, the first four copies bring the ledger to the table maximum of 10000, and
  the last two are rejected by \<open>placeBet\<close>: the operation reports success with four of
  the six copies placed. With a balance of \<open>6.8\<close> and bets of \<open>1\<close> and \<open>2.4\<close> twice the
  stakes is exactly the balance and far below the table maximum, the doubling is
  affordable, and the copy of the second bet is rejected, for in doubles
  \<open>6.8 - 4.4 = 2.3999999999999995\<close>: one of the two copies is placed.
\<close>

theorem doubleAllBets_partial_counterexample:
  "fst (doubleAllBets fl (\<lambda>i. (''d'', 1))
       \<lparr>balance = Finite 20000,
        currentBets = replicate 6 \<lparr>bet_id = ''b'', btype = ''straight'', numbers = [Num 17],
                                   amount = 1000, position = None, timestamp = 0\<rparr>,
        history = []\<rparr>)
     = Inr (replicate 4 \<lparr>bet_id = ''d'', btype = ''straight'', numbers = [Num 17],
                         amount = 1000, position = None, timestamp = 1\<rparr>)
   \<and> length (currentBets (snd (doubleAllBets fl (\<lambda>i. (''d'', 1))
       \<lparr>balance = Finite 20000,
        currentBets = replicate 6 \<lparr>bet_id = ''b'', btype = ''straight'', numbers = [Num 17],
                                   amount = 1000, position = None, timestamp = 0\<rparr>,
        history = []\<rparr>))) = 10
   \<and> fl (34 / 5) = 7656119366529843 / 1125899906842624
   \<and> fl (12 / 5) = 5404319552844595 / 2251799813685248
   \<and> 2 * (1 + 5404319552844595 / 2251799813685248) \<le> (7656119366529843 / 1125899906842624 :: rat)
   \<and> fst (doubleAllBets fl (\<lambda>i. (''d'', 1))
       \<lparr>balance = Finite (7656119366529843 / 1125899906842624),
        currentBets = [\<lparr>bet_id = ''a'', btype = ''straight'', numbers = [Num 17],
                        amount = 1, position = None, timestamp = 0\<rparr>,
                       \<lparr>bet_id = ''b'', btype = ''straight'', numbers = [Num 17],
                        amount = 5404319552844595 / 2251799813685248, position = None,
                        timestamp = 0\<rparr>],
        history = []\<rparr>)
     = Inr [\<lparr>bet_id = ''d'', btype = ''straight'', numbers = [Num 17],
             amount = 1, position = None, timestamp = 1\<rparr>]"
  using doubleAllBets_six doubleAllBets_frac by simp

theorem doubleAllBets_affordability_witness:
  "getTotalBetAmount fl (snd (doubleAllBets fl (\<lambda>i. (''d'', 1))
       \<lparr>balance = Finite 1000,
        currentBets = [\<lparr>bet_id = ''b'', btype = ''straight'', numbers = [Num 17],
                        amount = 10, position = None, timestamp = 0\<rparr>],
        history = []\<rparr>)) = 20
   \<and> doubleAllBets fl (\<lambda>i. (''d'', 1))
       \<lparr>balance = Finite 15,
        currentBets = [\<lparr>bet_id = ''b'', btype = ''straight'', numbers = [Num 17],
                        amount = 10, position = None, timestamp = 0\<rparr>],
        history = []\<rparr>
     = (Inl InsufficientToDouble,
        \<lparr>balance = Finite 15,
         currentBets = [\<lparr>bet_id = ''b'', btype = ''straight'', numbers = [Num 17],
                         amount = 10, position = None, timestamp = 0\<rparr>],
         history = []\<rparr>)
   \<and> map betShape (drop 2 (currentBets (snd (doubleAllBets fl (\<lambda>i. (''d'', 1))
       \<lparr>balance = Finite (7656119366529843 / 1125899906842624),
        currentBets = [\<lparr>bet_id = ''a'', btype = ''straight'', numbers = [Num 17],
                        amount = 1, position = None, timestamp = 0\<rparr>,
                       \<lparr>bet_id = ''b'', btype = ''straight'', numbers = [Num 17],
                        amount = 5404319552844595 / 2251799813685248, position = None,
                        timestamp = 0\<rparr>],
        history = []\<rparr>))))
     = [(''straight'', [Num 17], 1)]"
proof -
  let ?b = "\<lparr>bet_id = ''b'', btype = ''straight'', numbers = [Num 17],
             amount = 10, position = None, timestamp = 0\<rparr>"
  let ?st = "\<lparr>balance = Finite 1000, currentBets = [?b], history = []\<rparr>"
  let ?st2 = "\<lparr>balance = Finite 15, currentBets = [?b], history = []\<rparr>"
  let ?st3 = "\<lparr>balance = Finite (7656119366529843 / 1125899906842624),
        currentBets = [\<lparr>bet_id = ''a'', btype = ''straight'', numbers = [Num 17],
                        amount = 1, position = None, timestamp = 0\<rparr>,
                       \<lparr>bet_id = ''b'', btype = ''straight'', numbers = [Num 17],
                        amount = 5404319552844595 / 2251799813685248, position = None,
                        timestamp = 0\<rparr>],
        history = []\<rparr>"
  let ?env = "\<lambda>i::nat. (''d'', 1::nat)"
  have ne: "currentBets ?st \<noteq> []" by simp
  have pb: "\<forall>b \<in> set (currentBets ?st). placeable b \<and> amount b \<in> \<int>"
    by (simp add: placeable_def validateBet_straight_17 minBet_def maxBet_def)
  have bal: "\<exists>B::int. balance ?st = Finite (of_int B) \<and> \<bar>B\<bar> \<le> 2 ^ 53
      \<and> 2 * sum_list (map amount (currentBets ?st)) \<le> of_int B"
    by (intro exI [of _ 1000]) simp
  have tm: "2 * sum_list (map amount (currentBets ?st)) \<le> tableMax"
    by (simp add: tableMax_def)
  from doubleAllBets_affordability [OF ne, of fl ?env, THEN conjunct2, THEN conjunct2,
      THEN conjunct2, THEN mp, OF conjI, OF fl_exact conjI, OF pb conjI, OF bal tm]
  obtain placed where r: "doubleAllBets fl ?env ?st
        = (Inr placed, ?st\<lparr>currentBets := currentBets ?st @ placed\<rparr>)"
    and f: "getTotalBetAmount fl (?st\<lparr>currentBets := currentBets ?st @ placed\<rparr>)
        = 2 * sum_list (map amount (currentBets ?st))"
    by blast
  have a: "getTotalBetAmount fl (snd (doubleAllBets fl ?env ?st)) = 20"
    unfolding r using f by simp
  have ne2: "currentBets ?st2 \<noteq> []" by simp
  have naff: "\<not> canAffordBet fl ?st2 (getTotalBetAmount fl ?st2)"
    by (simp add: canAffordBet_def getTotalBetAmount_def sumAmounts_def fl_numeral)
  have b: "doubleAllBets fl ?env ?st2 = (Inl InsufficientToDouble, ?st2)"
    using doubleAllBets_affordability [OF ne2, of fl ?env, THEN conjunct2, THEN conjunct1,
        THEN mp, OF naff] .
  have ne3: "currentBets ?st3 \<noteq> []" by simp
  have aff3: "canAffordBet fl ?st3 (getTotalBetAmount fl ?st3)" by code_simp
  have acc3: "map betShape (acceptedCopies fl (balance ?st3) (getTotalBetAmount fl ?st3)
        (currentBets ?st3)) = [(''straight'', [Num 17], 1)]"
    by code_simp
  from doubleAllBets_affordability [OF ne3, of fl ?env, THEN conjunct2, THEN conjunct2,
      THEN conjunct1, THEN mp, OF aff3]
  obtain placed3 where r3: "doubleAllBets fl ?env ?st3
        = (Inr placed3, ?st3\<lparr>currentBets := currentBets ?st3 @ placed3\<rparr>)"
    and m3: "map betShape placed3 = map betShape (acceptedCopies fl (balance ?st3)
        (getTotalBetAmount fl ?st3) (currentBets ?st3))"
    by blast
  have c: "map betShape (drop 2 (currentBets (snd (doubleAllBets fl ?env ?st3))))
      = [(''straight'', [Num 17], 1)]"
    unfolding r3 using m3 acc3 by simp
  from a b c show ?thesis by (intro conjI)
qed

lemma lastSpinBets_Nil_iff:
  "lastSpinBets st = [] \<longleftrightarrow>
     history st = [] \<or> (\<exists>e older. history st = e # older \<and> (bets e = None \<or> bets e = Some []))"
  by (auto simp: lastSpinBets_def split: list.splits option.splits)











subsection \<open>Placement under a name inherited from the object prototype\<close>

text \<open>
  No name inherited from \<open>Object.prototype\<close> is ever reported as an invalid bet type:
  its placement is rejected by a later check of \<open>validateBet\<close>, and the state stays.
\<close>

lemma placeBet_inherited:
  assumes "t \<in> set objectPrototypeKeys"
  shows "\<exists>e. placeBet rnd s t ns amt pos st = (Inl e, st) \<and> e \<noteq> InvalidBetType"
proof -
  have "\<exists>e. validateBet t ns = Inl e \<and> e \<noteq> InvalidBetType"
    by (simp add: validateBet_def betTypes_get_inherited [OF assms] Let_def)
  then show ?thesis by (auto simp: placeBet_def)
qed

text \<open>
  C2 at the bet type \<open>toString\<close>, which is not a bet type of the catalog, so that the
  first failing check is the unknown bet type. But \<open>betTypes['toString']\<close> is the
  inherited function, the test \<open>!betType\<close> lets it pass, and the bet on 17 is rejected
  by the count test (\<open>numbers.length !== undefined\<close>) with the message of a count
  mismatch, \<open>toString requires undefined number(s)\<close>. The type \<open>basket\<close>, which names
  no property at all, is rejected as an invalid bet type. Both rejections leave the state
  as it was.
\<close>

theorem placeBet_inherited_type_message:
  "''toString'' \<notin> fst ` set betTypes
   \<and> placeBet fl (''d'', 1) ''toString'' [Num 17] (Num 10) None
        \<lparr>balance = Finite 1000, currentBets = [], history = []\<rparr>
      = (Inl (RequiresNumbers (Inherited ''toString'')),
         \<lparr>balance = Finite 1000, currentBets = [], history = []\<rparr>)
   \<and> RequiresNumbers (Inherited ''toString'') \<noteq> InvalidBetType
   \<and> placeBet fl (''d'', 1) ''basket'' [Num 17] (Num 10) None
        \<lparr>balance = Finite 1000, currentBets = [], history = []\<rparr>
      = (Inl InvalidBetType, \<lparr>balance = Finite 1000, currentBets = [], history = []\<rparr>)"
  by (simp add: placeBet_def validateBet_def betTypes_get_def betTypes_def
      objectPrototypeKeys_def wheelOrder_def)

end
